theory Spec2Isabelle
  imports Main "HOL-Library.AList"
begin

text \<open>
  A model of the Debian manual page fetcher (\<open>main.py\<close>; \<open>fetch.py\<close> is the variant
  that reads the archives from a local mirror and has the same cache and the same member
  loop): the path classifier, the cache with its full rebuild and its incremental update,
  and the extraction of the pages of one archive. Exceptions are values of the type
  \<open>error\<close>; state that the Python code changes in place is passed through and returned.
\<close>

section \<open>Python string operations used by the program\<close>

text \<open>
  Strings are lists of characters. The functions below follow the Python \<open>str\<close>
  methods and the \<open>os.path\<close> helpers (POSIX flavour) the program calls. Characters are
  bytes here, so \<open>isspace\<close> and \<open>isdigit\<close> are the ASCII parts of Python's predicates.
\<close>

definition startswith :: "string \<Rightarrow> string \<Rightarrow> bool" where
  "startswith s p = (take (length p) s = p)"

definition endswith :: "string \<Rightarrow> string \<Rightarrow> bool" where
  "endswith s p = (length p \<le> length s \<and> drop (length s - length p) s = p)"

text \<open>\<open>sub in s\<close> for a substring \<open>sub\<close>.\<close>

fun contains :: "string \<Rightarrow> string \<Rightarrow> bool" where
  "contains [] sub = (sub = [])"
| "contains (c # cs) sub = (take (length sub) (c # cs) = sub \<or> contains cs sub)"

text \<open>
  \<open>s.count(sub)\<close>: the number of non-overlapping occurrences, scanning from the left.
  \<open>skip\<close> is the number of characters still covered by the occurrence counted last.
\<close>

fun count_from :: "nat \<Rightarrow> string \<Rightarrow> string \<Rightarrow> nat" where
  "count_from skip [] sub = 0"
| "count_from skip (c # cs) sub =
     (if 0 < skip then count_from (skip - 1) cs sub
      else if take (length sub) (c # cs) = sub then Suc (count_from (length sub - 1) cs sub)
      else count_from 0 cs sub)"

definition count_str :: "string \<Rightarrow> string \<Rightarrow> nat" where
  "count_str s sub = (if sub = [] then Suc (length s) else count_from 0 s sub)"

text \<open>\<open>os.path.basename\<close>: what follows the last slash.\<close>

definition bname :: "string \<Rightarrow> string" where
  "bname p = rev (takeWhile (\<lambda>c. c \<noteq> CHR ''/'') (rev p))"

text \<open>
  \<open>os.path.splitext\<close>: the extension starts at the last dot of the last component,
  unless only dots precede it there.
\<close>

definition splitext :: "string \<Rightarrow> string \<times> string" where
  "splitext p =
     (let tail = takeWhile (\<lambda>c. c \<noteq> CHR ''/'') (rev p);
          ext = takeWhile (\<lambda>c. c \<noteq> CHR ''.'') tail;
          stem = drop (Suc (length ext)) tail
      in if CHR ''.'' \<in> set tail \<and> (\<exists>c \<in> set stem. c \<noteq> CHR ''.'')
         then (take (length p - Suc (length ext)) p, drop (length p - Suc (length ext)) p)
         else (p, []))"

definition isdigit :: "char \<Rightarrow> bool" where
  "isdigit c = (c \<in> set ''0123456789'')"

text \<open>\<open>s.isdigit()\<close>: false on the empty string.\<close>

definition str_isdigit :: "string \<Rightarrow> bool" where
  "str_isdigit s = (s \<noteq> [] \<and> list_all isdigit s)"

text \<open>\<open>os.path.join\<close> of two components.\<close>

definition pjoin :: "string \<Rightarrow> string \<Rightarrow> string" where
  "pjoin a b =
     (if startswith b ''/'' then b
      else if a = [] \<or> endswith a ''/'' then a @ b
      else a @ ''/'' @ b)"

section \<open>Helper functions of the program\<close>

text \<open>
  \<^verbatim>\<open>
  def manpage_name(file):
      if '/' in file:
          file = bname(file)
      if file.endswith('.gz'):
          file = file[:-3]
      return file
  \<close>
\<close>

definition manpage_name :: "string \<Rightarrow> string" where
  "manpage_name file =
     (let file1 = (if CHR ''/'' \<in> set file then bname file else file)
      in if endswith file1 ''.gz'' then take (length file1 - 3) file1 else file1)"

text \<open>
  \<^verbatim>\<open>
  def is_manpage(file):
      man_occ = file.count('/man')
      if not man_occ: return False
      name = bname(file)
      if '.' not in name: return False
      name = manpage_name(name)
      if '.' not in name: return False
      if man_occ > 1:
          if '/man/man' not in file: return False
      _, ext = os.path.splitext(name)
      if not ext[1:2].isdigit(): return False
      return True
  \<close>
\<close>

definition is_manpage :: "string \<Rightarrow> bool" where
  "is_manpage file =
     (let man_occ = count_str file ''/man'' in
      if man_occ = 0 then False
      else let name0 = bname file in
        if CHR ''.'' \<notin> set name0 then False
        else let name1 = manpage_name name0 in
          if CHR ''.'' \<notin> set name1 then False
          else if 1 < man_occ \<and> \<not> contains file ''/man/man'' then False
          else let ext = snd (splitext name1) in
            if \<not> str_isdigit (take 1 (drop 1 ext)) then False
            else True)"

section \<open>Parsing a row of the file-listing index\<close>

definition isspace :: "char \<Rightarrow> bool" where
  "isspace c = (c \<in> set [CHR '' '', CHR 0x09, CHR 0x0A, CHR 0x0B, CHR 0x0C, CHR 0x0D,
                            CHR 0x1C, CHR 0x1D, CHR 0x1E, CHR 0x1F])"

text \<open>
  \<open>line.rsplit(None, 1)\<close>: the last whitespace-separated word, and before it whatever
  precedes the whitespace in front of that word (leading whitespace kept). The result has
  no element for a blank line and one element for a line of a single word.
\<close>

definition rsplit1 :: "string \<Rightarrow> string list" where
  "rsplit1 s =
     (let r = dropWhile isspace (rev s) in
      if r = [] then []
      else let tok = takeWhile (\<lambda>c. \<not> isspace c) r;
               rest = dropWhile isspace (dropWhile (\<lambda>c. \<not> isspace c) r)
           in if rest = [] then [rev tok] else [rev rest, rev tok])"

text \<open>\<open>s.split(sep)\<close> for a separator of one character.\<close>

fun split_on :: "char \<Rightarrow> string \<Rightarrow> string list" where
  "split_on sep [] = [[]]"
| "split_on sep (c # cs) =
     (if c = sep then [] # split_on sep cs
      else (case split_on sep cs of [] \<Rightarrow> [[c]] | w # ws \<Rightarrow> (c # w) # ws))"

section \<open>The cache\<close>

text \<open>The exceptions the modelled code can raise.\<close>

datatype error = KeyError | IndexError | ValueError | IOError | TypeError
  | FileNotFoundError | DebError | OSError

text \<open>\<open>PackageName = namedtuple("PackageName", ['section', 'package'])\<close>\<close>

datatype PackageName = PackageName (pn_section: string) (pn_package: string)

text \<open>
  A member is the dictionary \<open>self['members'][member]\<close>: \<open>add_member\<close> creates it with
  \<open>'name'\<close> and \<open>'state'\<close> (0 pending, 1 extracted, 2 link only); \<open>'link'\<close> is added later.
\<close>

record member =
  name :: string
  state :: int
  link :: "string option"

text \<open>
  \<open>class DebianPackage(dict)\<close>: \<open>__init__\<close> sets \<open>'flushed'\<close>; every other key is
  added later and is \<open>None\<close> while absent. The members dictionary keeps insertion order,
  which is the order the extraction loop visits it in.
\<close>

record DebianPackage =
  flushed :: bool
  members :: "(string \<times> member) list option"
  ver :: "string option"
  url :: "string option"
  desc :: "string option"
  todelete :: "bool option"

definition DebianPackage_init :: DebianPackage where
  "DebianPackage_init =
     \<lparr>flushed = False, members = None, ver = None, url = None, desc = None, todelete = None\<rparr>"

text \<open>
  The cache is a \<open>defaultdict(DebianPackage)\<close> keyed by \<open>PackageName\<close>, kept as an
  association list in insertion order.
\<close>

type_synonym cache = "(PackageName \<times> DebianPackage) list"

text \<open>
  \<open>normalize_member\<close> is \<open>debfile.DebPart._DebPart__normalize_member\<close> of the
  python-debian library, which is not part of the repository: the functions below take it
  as the parameter \<open>nm\<close>. The library's version drops one leading \<open>./\<close> or \<open>/\<close>;
  \<open>deb_normalize_member\<close> is used where a concrete instance is evaluated.
\<close>

definition deb_normalize_member :: "string \<Rightarrow> string" where
  "deb_normalize_member fname =
     (if startswith fname ''./'' then drop 2 fname
      else if startswith fname ''/'' then drop 1 fname
      else fname)"

text \<open>
  \<^verbatim>\<open>
  def add_member(self, member):
      if 'members' not in self:
          self['members'] = defaultdict(dict)
      member = normalize_member(member)
      if member not in self['members']:
          self['flushed'] = False
          self['members'][member]['name'] = manpage_name(member)
          self['members'][member]['state'] = 0
  \<close>
\<close>

definition add_member :: "(string \<Rightarrow> string) \<Rightarrow> DebianPackage \<Rightarrow> string \<Rightarrow> DebianPackage" where
  "add_member nm self file =
     (let ms = (case members self of None \<Rightarrow> [] | Some ms \<Rightarrow> ms);
          m = nm file
      in if map_of ms m = None
         then self\<lparr>flushed := False,
                   members := Some (ms @ [(m, \<lparr>name = manpage_name m, state = 0, link = None\<rparr>)])\<rparr>
         else self)"

text \<open>\<open>packages[current_package].add_member(file)\<close>, creating the record on first sight.\<close>

definition register :: "(string \<Rightarrow> string) \<Rightarrow> string \<Rightarrow> PackageName \<Rightarrow> cache \<Rightarrow> cache" where
  "register nm file k packages =
     AList.update k
       (add_member nm (case map_of packages k of None \<Rightarrow> DebianPackage_init | Some r \<Rightarrow> r) file)
       packages"

subsection \<open>rebuild_cache\<close>

text \<open>
  The loop over \<open>location.split(',')\<close>; \<open>section, package = p.split('/')\<close> raises
  \<open>ValueError\<close> unless the split has two parts.
\<close>

fun rebuild_locations :: "(string \<Rightarrow> string) \<Rightarrow> string \<Rightarrow> string list \<Rightarrow> cache \<Rightarrow> error + cache" where
  "rebuild_locations nm file [] packages = Inr packages"
| "rebuild_locations nm file (p # ps) packages =
     (case split_on CHR ''/'' p of
        [sec, pkg] \<Rightarrow> rebuild_locations nm file ps (register nm file (PackageName sec pkg) packages)
      | _ \<Rightarrow> Inl ValueError)"

text \<open>
  The loop over the lines of the contents file (lines 134 to 151): while \<open>in_header\<close>
  holds every line is skipped, and the first line that starts with \<open>FILE\<close> ends the
  header.
\<close>

fun rebuild_lines :: "(string \<Rightarrow> string) \<Rightarrow> bool \<Rightarrow> string list \<Rightarrow> cache \<Rightarrow> error + cache" where
  "rebuild_lines nm in_header [] packages = Inr packages"
| "rebuild_lines nm in_header (line # rest) packages =
     (if in_header then rebuild_lines nm (\<not> startswith line ''FILE'') rest packages
      else (case rsplit1 line of
          [file, location] \<Rightarrow>
            if \<not> is_manpage file then rebuild_lines nm False rest packages
            else (case rebuild_locations nm file (split_on CHR '','' location) packages of
                Inl e \<Rightarrow> Inl e
              | Inr packages' \<Rightarrow> rebuild_lines nm False rest packages')
        | _ \<Rightarrow> Inl ValueError))"

text \<open>
  A paragraph of the packages file, with the five fields the program reads; a field is
  \<open>None\<close> when the paragraph lacks it, and reading it raises \<open>KeyError\<close>.
\<close>

record stanza =
  Section :: "string option"
  Package :: "string option"
  Version :: "string option"
  Filename :: "string option"
  Description :: "string option"

definition stanza_key :: "stanza \<Rightarrow> PackageName option" where
  "stanza_key b =
     (case (Section b, Package b) of (Some s, Some n) \<Rightarrow> Some (PackageName s n) | _ \<Rightarrow> None)"

fun rebuild_metadata :: "stanza list \<Rightarrow> cache \<Rightarrow> error + cache" where
  "rebuild_metadata [] packages = Inr packages"
| "rebuild_metadata (b # bs) packages =
     (case stanza_key b of
        None \<Rightarrow> Inl KeyError
      | Some p \<Rightarrow>
          if map_of packages p = None then rebuild_metadata bs packages
          else (case (Version b, Filename b, Description b) of
              (Some v, Some f, Some d) \<Rightarrow>
                rebuild_metadata bs
                  (AList.map_entry p (\<lambda>r. r\<lparr>ver := Some v, url := Some f, desc := Some d\<rparr>) packages)
            | _ \<Rightarrow> Inl KeyError))"

text \<open>
  \<open>rebuild_cache\<close>: the two index files are given as their lines and paragraphs, \<open>None\<close>
  when the file is missing (\<open>ensure_packages_contents_exist\<close> raises \<open>IOError\<close>). The
  result is the cache written to the cache file.
\<close>

definition rebuild_cache ::
  "(string \<Rightarrow> string) \<Rightarrow> string list option \<Rightarrow> stanza list option \<Rightarrow> error + cache" where
  "rebuild_cache nm contents_file packages_file =
     (case (contents_file, packages_file) of
        (Some ls, Some bs) \<Rightarrow>
          (case rebuild_lines nm True ls [] of
             Inl e \<Rightarrow> Inl e
           | Inr packages \<Rightarrow> rebuild_metadata bs packages)
      | _ \<Rightarrow> Inl IOError)"

subsection \<open>update_cache\<close>

fun update_locations ::
  "(string \<Rightarrow> string) \<Rightarrow> string \<Rightarrow> string list \<Rightarrow> cache \<times> PackageName set
     \<Rightarrow> error + cache \<times> PackageName set" where
  "update_locations nm file [] acc = Inr acc"
| "update_locations nm file (p # ps) (packages, packages_with_pages) =
     (case split_on CHR ''/'' p of
        [sec, pkg] \<Rightarrow>
          update_locations nm file ps
            (register nm file (PackageName sec pkg) packages,
             insert (PackageName sec pkg) packages_with_pages)
      | _ \<Rightarrow> Inl ValueError)"

fun update_lines ::
  "(string \<Rightarrow> string) \<Rightarrow> bool \<Rightarrow> string list \<Rightarrow> cache \<times> PackageName set
     \<Rightarrow> error + cache \<times> PackageName set" where
  "update_lines nm in_header [] acc = Inr acc"
| "update_lines nm in_header (line # rest) acc =
     (if in_header then update_lines nm (\<not> startswith line ''FILE'') rest acc
      else (case rsplit1 line of
          [file, location] \<Rightarrow>
            if \<not> is_manpage file then update_lines nm False rest acc
            else (case update_locations nm file (split_on CHR '','' location) acc of
                Inl e \<Rightarrow> Inl e
              | Inr acc' \<Rightarrow> update_lines nm False rest acc')
        | _ \<Rightarrow> Inl ValueError))"

text \<open>
  \<^verbatim>\<open>
  for k in set(packages) - packages_with_pages:
      packages[k]['todelete'] = True
  \<close>
  Each key is updated on its own, so the order of the set does not matter.
\<close>

definition mark_todelete :: "PackageName set \<Rightarrow> cache \<Rightarrow> cache" where
  "mark_todelete packages_with_pages packages =
     map (\<lambda>(k, r). if k \<in> packages_with_pages then (k, r) else (k, r\<lparr>todelete := Some True\<rparr>))
       packages"

text \<open>
  \<^verbatim>\<open>
  for b in deb822.Packages.iter_paragraphs(sequence=fp):
      p = PackageName(b['Section'], b['Package'])
      if p not in packages:
          continue
      if packages[p]['ver'] != b['Version']:
          packages[p]['ver'] = b['Version']
          packages[p]['url'] = b['Filename']
          packages[p]['desc'] = b['Description']
          packages[p]['flushed'] = False
  \<close>
\<close>

fun update_metadata :: "stanza list \<Rightarrow> cache \<Rightarrow> error + cache" where
  "update_metadata [] packages = Inr packages"
| "update_metadata (b # bs) packages =
     (case stanza_key b of
        None \<Rightarrow> Inl KeyError
      | Some p \<Rightarrow>
          (case map_of packages p of
             None \<Rightarrow> update_metadata bs packages
           | Some r \<Rightarrow>
               (case (ver r, Version b) of
                  (Some v0, Some v) \<Rightarrow>
                    if v0 \<noteq> v then
                      (case (Filename b, Description b) of
                         (Some f, Some d) \<Rightarrow>
                           update_metadata bs
                             (AList.map_entry p
                                (\<lambda>r. r\<lparr>ver := Some v, url := Some f, desc := Some d,
                                       flushed := False\<rparr>) packages)
                       | _ \<Rightarrow> Inl KeyError)
                    else update_metadata bs packages
                | _ \<Rightarrow> Inl KeyError)))"

text \<open>
  \<open>update_cache\<close>: \<open>cache_file\<close> is the unpickled cache, \<open>None\<close> when the cache file does
  not exist (then the cache is rebuilt). The result is the cache written back.
\<close>

definition update_cache ::
  "(string \<Rightarrow> string) \<Rightarrow> cache option \<Rightarrow> string list option \<Rightarrow> stanza list option
     \<Rightarrow> error + cache" where
  "update_cache nm cache_file contents_file packages_file =
     (case cache_file of
        None \<Rightarrow> rebuild_cache nm contents_file packages_file
      | Some packages \<Rightarrow>
          (case (contents_file, packages_file) of
             (Some ls, Some bs) \<Rightarrow>
               (case update_lines nm True ls (packages, {}) of
                  Inl e \<Rightarrow> Inl e
                | Inr (packages1, packages_with_pages) \<Rightarrow>
                    update_metadata bs (mark_todelete packages_with_pages packages1))
           | _ \<Rightarrow> Inl IOError))"

section \<open>Fetching and extracting one archive\<close>

text \<open>
  What the program sees of an archive through python-debian and \<open>tarfile\<close>: the entry
  \<open>getmember\<close> finds for a name (\<open>None\<close> when it raises \<open>KeyError\<close>), and what
  \<open>get_file\<close> does for a member (the content, \<open>KeyError\<close> when the entry or the target
  of a link is not in the archive, or another error of the library).
\<close>

record TarInfo =
  issym :: bool
  linkname :: string

datatype get_file_result = FileContents string | RaisesKeyError | RaisesDebError

record data_file =
  getmember :: "string \<Rightarrow> TarInfo option"
  get_file :: "string \<Rightarrow> get_file_result"

text \<open>
  The collaborators of \<open>get_manpages_from_package\<close>: the output directory, the download
  (\<open>requests.get(url).content\<close>), the path \<open>mkstemp\<close> returns, the archive parser
  (\<open>debfile.DebFile(path).data\<close> on the bytes of the file, \<open>None\<close> when it raises) and
  the decompressor (\<open>gzip.GzipFile(fileobj=f).read()\<close>, \<open>None\<close> when it raises).
  A download that fails and file-system calls that fail are not modelled: the download
  returns bytes, and creating a directory, writing a file and unlinking one succeed.
\<close>

record env =
  output_dir :: string
  http_get :: "string \<Rightarrow> string"
  mkstemp :: string
  DebFile_data :: "string \<Rightarrow> data_file option"
  gunzip :: "string \<Rightarrow> string option"

text \<open>
  The state the fetcher works on: the class attribute \<open>DebianManpageFetcher.packages\<close>
  (\<open>None\<close> until loaded), the pickled cache file (\<open>None\<close> when there is none), and the
  regular files and directories of the file system.
\<close>

record fetcher =
  packages :: "cache option"
  cache_file :: "cache option"
  files :: "string \<Rightarrow> string option"
  dirs :: "string set"

text \<open>How one iteration of the member loop ends, and how a call ends.\<close>

datatype flow = Continue | ReturnTrue | Raise error

datatype outcome = Returns "bool option" | Raises error

definition base_url :: string where
  "base_url = ''http://httpredir.debian.org/debian/''"

text \<open>
  The body of the loop over \<open>cp['members'].items()\<close> (lines 336 to 365) for the member
  \<open>member\<close> with record \<open>v\<close>; \<open>fs\<close> are the regular files. The output file is opened for
  writing before the content is read, so a failing decompression leaves it empty.
\<close>

definition process_member ::
  "env \<Rightarrow> data_file \<Rightarrow> string \<Rightarrow> string \<Rightarrow> member \<Rightarrow> (string \<Rightarrow> string option)
     \<Rightarrow> flow \<times> member \<times> (string \<Rightarrow> string option)" where
  "process_member e df container m v fs =
     (if state v \<noteq> 0 then (Continue, v, fs)
      else (case getmember df (''./'' @ m) of
          None \<Rightarrow> (Raise KeyError, v, fs)
        | Some item \<Rightarrow>
            (case get_file df m of
               RaisesKeyError \<Rightarrow>
                 if issym item then (Continue, v\<lparr>state := 2\<rparr>, fs) else (ReturnTrue, v, fs)
             | RaisesDebError \<Rightarrow> (Raise DebError, v, fs)
             | FileContents raw \<Rightarrow>
                 (let v1 = (if issym item then v\<lparr>link := Some (manpage_name (linkname item))\<rparr>
                            else v);
                      final_path = pjoin container (name v1)
                  in case (if endswith m ''.gz'' then gunzip e raw else Some raw) of
                       None \<Rightarrow> (Raise OSError, v1, fs(final_path \<mapsto> []))
                     | Some contents \<Rightarrow> (Continue, v1\<lparr>state := 1\<rparr>, fs(final_path \<mapsto> contents))))))"

text \<open>
  The loop itself. \<open>Continue\<close> as the result means that the loop ran to its end, which
  is when the \<open>else\<close> clause of the \<open>for\<close> runs. The members are changed in place, so
  the members visited before a \<open>return\<close> or an exception keep their new records.
\<close>

fun members_loop ::
  "env \<Rightarrow> data_file \<Rightarrow> string \<Rightarrow> (string \<times> member) list \<Rightarrow> (string \<Rightarrow> string option)
     \<Rightarrow> flow \<times> (string \<times> member) list \<times> (string \<Rightarrow> string option)" where
  "members_loop e df container [] fs = (Continue, [], fs)"
| "members_loop e df container ((m, v) # rest) fs =
     (case process_member e df container m v fs of
        (Continue, v', fs') \<Rightarrow>
          (case members_loop e df container rest fs' of
             (r, rest', fs'') \<Rightarrow> (r, (m, v') # rest', fs''))
      | (r, v', fs') \<Rightarrow> (r, (m, v') # rest, fs'))"

text \<open>
  Lines 316 to 369 of \<open>get_manpages_from_package\<close>, for the key \<open>p\<close> found and its
  record \<open>cp\<close>; \<open>pk\<close> is the loaded cache.
\<close>

definition fetch_record ::
  "env \<Rightarrow> fetcher \<Rightarrow> cache \<Rightarrow> string \<Rightarrow> PackageName \<Rightarrow> DebianPackage \<Rightarrow> outcome \<times> fetcher" where
  "fetch_record e st pk container p cp =
     (if flushed cp then (Returns (Some True), st)
      else (case url cp of
          None \<Rightarrow> (Raises KeyError, st)
        | Some u \<Rightarrow>
            (let response = http_get e (base_url @ u);
                 tmpfile = mkstemp e;
                 st1 = st\<lparr>files := (files st)(tmpfile \<mapsto> response)\<rparr>
             in case DebFile_data e response of
                  None \<Rightarrow> (Returns None, st1\<lparr>files := (files st1)(tmpfile := None)\<rparr>)
                | Some df \<Rightarrow>
                    (case members cp of
                       None \<Rightarrow> (Raises KeyError, st1)
                     | Some ms \<Rightarrow>
                         (case members_loop e df container ms (files st1) of
                            (Continue, ms', fs') \<Rightarrow>
                              (Returns None,
                               st1\<lparr>packages :=
                                      Some (AList.update p (cp\<lparr>members := Some ms', flushed := True\<rparr>) pk),
                                    files := fs'(tmpfile := None)\<rparr>)
                          | (ReturnTrue, ms', fs') \<Rightarrow>
                              (Returns (Some True),
                               st1\<lparr>packages := Some (AList.update p (cp\<lparr>members := Some ms'\<rparr>) pk),
                                    files := fs'\<rparr>)
                          | (Raise err, ms', fs') \<Rightarrow>
                              (Raises err,
                               st1\<lparr>packages := Some (AList.update p (cp\<lparr>members := Some ms'\<rparr>) pk),
                                    files := fs'\<rparr>))))))"

text \<open>
  \<^verbatim>\<open>
  container = pjoin(DebianManpageFetcher.output_dir, package)
  if not os.path.isdir(container):
      os.makedirs(container)
  p = [sp for sp in DebianManpageFetcher.packages if sp.package == package][0]
  cp = DebianManpageFetcher.packages[p]
  \<close>
\<close>

definition get_manpages_from_package :: "env \<Rightarrow> fetcher \<Rightarrow> string \<Rightarrow> outcome \<times> fetcher" where
  "get_manpages_from_package e st pkg =
     (let container = pjoin (output_dir e) pkg;
          st1 = (if container \<in> dirs st then st else st\<lparr>dirs := insert container (dirs st)\<rparr>)
      in case packages st1 of
           None \<Rightarrow> (Raises TypeError, st1)
         | Some pk \<Rightarrow>
             (case filter (\<lambda>sp. pn_package sp = pkg) (map fst pk) of
                [] \<Rightarrow> (Raises IndexError, st1)
              | p # _ \<Rightarrow>
                  (case map_of pk p of
                     None \<Rightarrow> (Raises KeyError, st1)
                   | Some cp \<Rightarrow> fetch_record e st1 pk container p cp)))"

definition load_packages :: "fetcher \<Rightarrow> error + fetcher" where
  "load_packages st =
     (case packages st of
        Some pk \<Rightarrow> Inr st
      | None \<Rightarrow>
          (case cache_file st of
             None \<Rightarrow> Inl FileNotFoundError
           | Some c \<Rightarrow> Inr (st\<lparr>packages := Some c\<rparr>)))"

definition save_packages :: "fetcher \<Rightarrow> fetcher" where
  "save_packages st =
     (case packages st of None \<Rightarrow> st | Some pk \<Rightarrow> st\<lparr>cache_file := Some pk\<rparr>)"

text \<open>
  \<^verbatim>\<open>
  def fetchone(package):
      DebianManpageFetcher.load_packages()
      DebianManpageFetcher.get_manpages_from_package(package)
      DebianManpageFetcher.save_packages()
  \<close>
\<close>

definition fetchone :: "env \<Rightarrow> fetcher \<Rightarrow> string \<Rightarrow> outcome \<times> fetcher" where
  "fetchone e st pkg =
     (case load_packages st of
        Inl err \<Rightarrow> (Raises err, st)
      | Inr st1 \<Rightarrow>
          (case get_manpages_from_package e st1 pkg of
             (Raises err, st2) \<Rightarrow> (Raises err, st2)
           | (Returns r, st2) \<Rightarrow> (Returns None, save_packages st2)))"

section \<open>An example archive\<close>

text \<open>
  An archive \<open>main/foo\<close> with four entries below \<open>usr/share/man/man1\<close>: the regular
  page \<open>a.1.gz\<close>, the link \<open>b.1.gz\<close> to it, the link \<open>c.1.gz\<close> whose target is not in
  the archive, and \<open>d.1.gz\<close>, which is no symbolic link and whose content cannot be read.
\<close>

definition ex_df :: data_file where
  "ex_df =
     \<lparr>getmember = map_of
        [(''./usr/share/man/man1/a.1.gz'', \<lparr>issym = False, linkname = []\<rparr>),
         (''./usr/share/man/man1/b.1.gz'', \<lparr>issym = True, linkname = ''a.1.gz''\<rparr>),
         (''./usr/share/man/man1/c.1.gz'', \<lparr>issym = True, linkname = ''../man8/z.8.gz''\<rparr>),
         (''./usr/share/man/man1/d.1.gz'', \<lparr>issym = False, linkname = []\<rparr>)],
      get_file = (\<lambda>m. if m = ''usr/share/man/man1/a.1.gz'' \<or> m = ''usr/share/man/man1/b.1.gz''
                       then FileContents ''GZ'' else RaisesKeyError)\<rparr>"

definition ex_env :: env where
  "ex_env =
     \<lparr>output_dir = ''output'',
      http_get = (\<lambda>u. if u = base_url @ ''pool/f/foo.deb'' then ''DEB'' else []),
      mkstemp = ''/tmp/tmpfoo'',
      DebFile_data = (\<lambda>b. if b = ''DEB'' then Some ex_df else None),
      gunzip = (\<lambda>raw. if raw = ''GZ'' then Some ''PAGE'' else None)\<rparr>"

definition ex_member :: "string \<Rightarrow> string \<times> member" where
  "ex_member n =
     (''usr/share/man/man1/'' @ n @ ''.1.gz'', \<lparr>name = n @ ''.1'', state = 0, link = None\<rparr>)"

definition ex_package :: "(string \<times> member) list \<Rightarrow> DebianPackage" where
  "ex_package ms =
     \<lparr>flushed = False, members = Some ms, ver = Some ''1.0'', url = Some ''pool/f/foo.deb'',
      desc = Some ''Foo tool'', todelete = None\<rparr>"

definition ex_fetcher :: "(string \<times> member) list \<Rightarrow> fetcher" where
  "ex_fetcher ms =
     \<lparr>packages = Some [(PackageName ''main'' ''foo'', ex_package ms)],
      cache_file = Some [(PackageName ''main'' ''foo'', ex_package ms)],
      files = (\<lambda>p. None), dirs = {}\<rparr>"

section \<open>Notions used to state the properties of the cache\<close>

text \<open>
  \<open>registered c k m\<close>: the cache \<open>c\<close> has a record for the key \<open>k\<close> with a member
  keyed \<open>m\<close>.
\<close>

definition registered :: "cache \<Rightarrow> PackageName \<Rightarrow> string \<Rightarrow> bool" where
  "registered c k m =
     (case map_of c k of
        None \<Rightarrow> False
      | Some r \<Rightarrow> (case members r of None \<Rightarrow> False | Some ms \<Rightarrow> map_of ms m \<noteq> None))"



text \<open>
  The registrations the loop over the index lines performs, in order, as pairs of a path
  and an archive key; the loops of \<open>rebuild_cache\<close> and \<open>update_cache\<close> both apply
  \<open>register\<close> to these pairs (lemmas \<open>rebuild_lines_pairs\<close> and \<open>update_lines_pairs\<close>).
\<close>

fun location_pairs :: "string \<Rightarrow> string list \<Rightarrow> error + (string \<times> PackageName) list" where
  "location_pairs file [] = Inr []"
| "location_pairs file (p # ps) =
     (case split_on CHR ''/'' p of
        [sec, pkg] \<Rightarrow>
          (case location_pairs file ps of
             Inl e \<Rightarrow> Inl e
           | Inr xs \<Rightarrow> Inr ((file, PackageName sec pkg) # xs))
      | _ \<Rightarrow> Inl ValueError)"

fun index_pairs :: "bool \<Rightarrow> string list \<Rightarrow> error + (string \<times> PackageName) list" where
  "index_pairs in_header [] = Inr []"
| "index_pairs in_header (line # rest) =
     (if in_header then index_pairs (\<not> startswith line ''FILE'') rest
      else (case rsplit1 line of
          [file, location] \<Rightarrow>
            if \<not> is_manpage file then index_pairs False rest
            else (case location_pairs file (split_on CHR '','' location) of
                Inl e \<Rightarrow> Inl e
              | Inr xs \<Rightarrow>
                  (case index_pairs False rest of Inl e \<Rightarrow> Inl e | Inr ys \<Rightarrow> Inr (xs @ ys)))
        | _ \<Rightarrow> Inl ValueError))"

definition register_all :: "(string \<Rightarrow> string) \<Rightarrow> (string \<times> PackageName) list \<Rightarrow> cache \<Rightarrow> cache" where
  "register_all nm xs c = fold (\<lambda>(f, k). register nm f k) xs c"

section \<open>Example index files\<close>

definition ex_contents :: "string list" where
  "ex_contents =
     [''FILE    LOCATION'' @ [CHR 0x0A],
      ''usr/bin/foo    main/foo'' @ [CHR 0x0A],
      ''usr/share/man/man1/foo.1.gz    main/foo'' @ [CHR 0x0A]]"

definition ex_stanza :: "string \<Rightarrow> string \<Rightarrow> stanza" where
  "ex_stanza n v =
     \<lparr>Section = Some ''main'', Package = Some n, Version = Some v,
      Filename = Some (''pool/'' @ n @ ''_'' @ v @ ''.deb''), Description = Some ''Foo tool''\<rparr>"

definition ex_record :: "string \<Rightarrow> string \<Rightarrow> bool \<Rightarrow> int \<Rightarrow> DebianPackage" where
  "ex_record n v fl s =
     \<lparr>flushed = fl,
      members = Some [(''usr/share/man/man1/'' @ n @ ''.1.gz'',
                       \<lparr>name = n @ ''.1'', state = s, link = None\<rparr>)],
      ver = Some v, url = Some (''pool/'' @ n @ ''_'' @ v @ ''.deb''),
      desc = Some ''Foo tool'', todelete = None\<rparr>"

section \<open>The canonical name\<close>

lemma bname_no_slash: "CHR ''/'' \<notin> set (bname p)"
  unfolding bname_def using set_takeWhileD by fastforce

lemma manpage_name_no_slash: "CHR ''/'' \<notin> set (manpage_name x)"
proof -
  define y where "y = (if CHR ''/'' \<in> set x then bname x else x)"
  have y: "CHR ''/'' \<notin> set y"
    unfolding y_def using bname_no_slash by simp
  have "set (take (length y - 3) y) \<subseteq> set y"
    by (rule set_take_subset)
  with y have "CHR ''/'' \<notin> set (take (length y - 3) y)"
    by blast
  with y show ?thesis
    unfolding manpage_name_def Let_def y_def [symmetric] by simp
qed

lemma manpage_name_twice:
  "manpage_name (manpage_name x) =
     (if endswith (manpage_name x) ''.gz''
      then take (length (manpage_name x) - 3) (manpage_name x) else manpage_name x)"
proof -
  have "manpage_name y =
      (if endswith y ''.gz'' then take (length y - 3) y else y)"
    if "CHR ''/'' \<notin> set y" for y
    using that by (simp add: manpage_name_def)
  from this [OF manpage_name_no_slash] show ?thesis .
qed

text \<open>
  C4, as the specification states it: the canonical name is idempotent. The code strips
  one compression suffix only, so a name that carries two loses the second one on the
  second application.
\<close>

theorem manpage_name_not_idempotent:
  "manpage_name (manpage_name ''a.1.gz.gz'') \<noteq> manpage_name ''a.1.gz.gz''"
  by (simp add: manpage_name_def endswith_def)

text \<open>
  C4, amended: applying \<open>manpage_name\<close> a second time changes nothing exactly when the
  first result does not end in the compression suffix; otherwise the second application
  strips that one suffix more.
\<close>

theorem manpage_name_idempotent_iff:
  "(manpage_name (manpage_name x) = manpage_name x) = (\<not> endswith (manpage_name x) ''.gz'')"
proof (cases "endswith (manpage_name x) ''.gz''")
  case True
  then have "3 \<le> length (manpage_name x)"
    by (simp add: endswith_def)
  then have "length (take (length (manpage_name x) - 3) (manpage_name x))
      \<noteq> length (manpage_name x)"
    by simp
  then have "take (length (manpage_name x) - 3) (manpage_name x) \<noteq> manpage_name x"
    by metis
  with True show ?thesis
    by (simp add: manpage_name_twice)
next
  case False
  then show ?thesis
    by (simp add: manpage_name_twice)
qed

theorem manpage_name_idempotent_iff_witness:
  "manpage_name (manpage_name ''/usr/share/man/man1/ls.1.gz'') = ''ls.1''
   \<and> manpage_name ''/usr/share/man/man1/ls.1.gz'' = ''ls.1''
   \<and> \<not> endswith ''ls.1'' ''.gz''"
proof -
  have a: "manpage_name ''/usr/share/man/man1/ls.1.gz'' = ''ls.1''"
    by (simp add: manpage_name_def endswith_def bname_def)
  have b: "\<not> endswith ''ls.1'' ''.gz''"
    by (simp add: endswith_def)
  from manpage_name_idempotent_iff [of "''/usr/share/man/man1/ls.1.gz''"] a b
  show ?thesis by simp
qed

section \<open>The documentation-path predicate\<close>

text \<open>
  C5: \<open>is_manpage\<close> accepts \<open>/usr/share/man/man1/ls.1.gz\<close> and rejects the localized
  page \<open>/usr/share/man/fr/man1/ls.1.gz\<close>, the binary \<open>/usr/bin/ls\<close> and the page without
  an extension \<open>/usr/share/man/man1/ls\<close>.
\<close>

theorem is_manpage_examples:
  "is_manpage ''/usr/share/man/man1/ls.1.gz''
   \<and> \<not> is_manpage ''/usr/share/man/fr/man1/ls.1.gz''
   \<and> \<not> is_manpage ''/usr/bin/ls''
   \<and> \<not> is_manpage ''/usr/share/man/man1/ls''"
proof -
  have 1: "is_manpage ''/usr/share/man/man1/ls.1.gz''"
    by (simp add: is_manpage_def count_str_def bname_def manpage_name_def endswith_def
        splitext_def str_isdigit_def isdigit_def)
  have 2: "\<not> is_manpage ''/usr/share/man/fr/man1/ls.1.gz''"
    by (simp add: is_manpage_def count_str_def bname_def manpage_name_def endswith_def)
  have 3: "\<not> is_manpage ''/usr/bin/ls''"
    by (simp add: is_manpage_def count_str_def)
  have 4: "\<not> is_manpage ''/usr/share/man/man1/ls''"
    by (simp add: is_manpage_def count_str_def bname_def)
  from 1 2 3 4 show ?thesis by simp
qed

section \<open>The extraction loop\<close>

lemmas ex_defs = ex_df_def ex_env_def ex_member_def ex_package_def ex_fetcher_def
  get_manpages_from_package_def fetch_record_def process_member_def Let_def pjoin_def
  startswith_def endswith_def manpage_name_def bname_def base_url_def


lemma members_loop_append:
  "members_loop e df c (pre @ post) fs =
     (case members_loop e df c pre fs of
        (Continue, pre', fs1) \<Rightarrow>
          (case members_loop e df c post fs1 of (r, post', fs2) \<Rightarrow> (r, pre' @ post', fs2))
      | (r, pre', fs1) \<Rightarrow> (r, pre' @ post, fs1))"
proof (induction pre arbitrary: fs)
  case Nil
  then show ?case by (simp split: prod.splits flow.splits)
next
  case (Cons a pre)
  obtain m v where a: "a = (m, v)" by (cases a)
  show ?case
    unfolding a by (simp add: Cons.IH split: prod.splits flow.splits)
qed

lemma process_member_link:
  assumes "process_member e df c m v fs = (r, v', fs')"
  shows "name v' = name v"
    and "link v' \<noteq> link v \<Longrightarrow>
           state v = 0 \<and> state v' \<noteq> 2 \<and>
           (\<exists>item raw. getmember df (''./'' @ m) = Some item \<and> issym item
              \<and> get_file df m = FileContents raw
              \<and> link v' = Some (manpage_name (linkname item)))"
  using assms
  by (auto simp: process_member_def Let_def
      split: if_splits option.splits get_file_result.splits)

lemma members_loop_pointwise:
  "members_loop e df c ms fs = (r, ms', fs') \<Longrightarrow>
     length ms' = length ms \<and>
     (\<forall>i<length ms. fst (ms' ! i) = fst (ms ! i) \<and>
        (snd (ms' ! i) = snd (ms ! i) \<or>
         (\<exists>fsa r1 fsb. process_member e df c (fst (ms ! i)) (snd (ms ! i)) fsa
            = (r1, snd (ms' ! i), fsb))))"
proof (induction ms arbitrary: fs r ms' fs')
  case Nil
  then show ?case by simp
next
  case (Cons a ms)
  obtain m v where a: "a = (m, v)" by (cases a)
  obtain r1 v1 fs1 where pm: "process_member e df c m v fs = (r1, v1, fs1)"
    by (cases "process_member e df c m v fs")
  show ?case
  proof (cases "r1 = Continue")
    case True
    obtain r2 ms2 fs2 where lp: "members_loop e df c ms fs1 = (r2, ms2, fs2)"
      by (cases "members_loop e df c ms fs1")
    from Cons.prems a pm True lp have eq: "ms' = (m, v1) # ms2"
      by simp
    note ih = Cons.IH [OF lp]
    show ?thesis
    proof (intro conjI allI impI)
      show "length ms' = length (a # ms)" using eq ih by simp
    next
      fix i assume "i < length (a # ms)"
      then show "fst (ms' ! i) = fst ((a # ms) ! i)"
        using eq ih a by (cases i) auto
    next
      fix i assume i: "i < length (a # ms)"
      show "snd (ms' ! i) = snd ((a # ms) ! i) \<or>
         (\<exists>fsa r1 fsb. process_member e df c (fst ((a # ms) ! i)) (snd ((a # ms) ! i)) fsa
            = (r1, snd (ms' ! i), fsb))"
      proof (cases i)
        case 0
        then show ?thesis using eq a pm by auto
      next
        case (Suc j)
        then show ?thesis using eq a ih i by simp
      qed
    qed
  next
    case False
    from Cons.prems a pm False have eq: "ms' = (m, v1) # ms"
      by (cases r1) simp_all
    show ?thesis
    proof (intro conjI allI impI)
      show "length ms' = length (a # ms)" using eq by simp
    next
      fix i assume "i < length (a # ms)"
      then show "fst (ms' ! i) = fst ((a # ms) ! i)"
        using eq a by (cases i) auto
    next
      fix i assume i: "i < length (a # ms)"
      show "snd (ms' ! i) = snd ((a # ms) ! i) \<or>
         (\<exists>fsa r1 fsb. process_member e df c (fst ((a # ms) ! i)) (snd ((a # ms) ! i)) fsa
            = (r1, snd (ms' ! i), fsb))"
      proof (cases i)
        case 0
        then show ?thesis using eq a pm by auto
      next
        case (Suc j)
        then show ?thesis using eq a by simp
      qed
    qed
  qed
qed

lemma get_manpages_found:
  assumes "packages st = Some pk"
    and "filter (\<lambda>sp. pn_package sp = pkg) (map fst pk) = p # others"
    and "map_of pk p = Some cp"
  shows "get_manpages_from_package e st pkg =
     fetch_record e (st\<lparr>dirs := insert (pjoin (output_dir e) pkg) (dirs st)\<rparr>) pk
       (pjoin (output_dir e) pkg) p cp"
proof (cases "pjoin (output_dir e) pkg \<in> dirs st")
  case True
  then have "st\<lparr>dirs := insert (pjoin (output_dir e) pkg) (dirs st)\<rparr> = st"
    by (simp add: insert_absorb)
  with True assms show ?thesis
    by (simp add: get_manpages_from_package_def Let_def)
next
  case False
  with assms show ?thesis
    by (simp add: get_manpages_from_package_def Let_def)
qed

lemma fetch_record_loop:
  assumes "\<not> flushed cp" and "url cp = Some u"
    and "DebFile_data e (http_get e (base_url @ u)) = Some df"
    and "members cp = Some ms"
    and "members_loop e df container ms ((files st)(mkstemp e \<mapsto> http_get e (base_url @ u)))
           = (r, ms', fs')"
  shows "fetch_record e st pk container p cp =
     ((case r of Continue \<Rightarrow> Returns None | ReturnTrue \<Rightarrow> Returns (Some True)
         | Raise err \<Rightarrow> Raises err),
      st\<lparr>packages := Some (AList.update p (cp\<lparr>members := Some ms', flushed := (r = Continue)\<rparr>) pk),
         files := (if r = Continue then fs'(mkstemp e := None) else fs')\<rparr>)"
proof -
  have nf: "cp\<lparr>members := Some ms', flushed := False\<rparr> = cp\<lparr>members := Some ms'\<rparr>"
    using assms(1) by simp
  show ?thesis
    using assms by (cases r) (simp_all add: fetch_record_def Let_def nf)
qed

lemma fetch_result_packages:
  assumes "packages st = Some pk"
    and "filter (\<lambda>sp. pn_package sp = pkg) (map fst pk) = p # others"
    and "map_of pk p = Some cp"
    and "\<not> flushed cp" and "url cp = Some u"
    and "DebFile_data e (http_get e (base_url @ u)) = Some df"
    and "members cp = Some ms"
    and "members_loop e df (pjoin (output_dir e) pkg) ms
           ((files st)(mkstemp e \<mapsto> http_get e (base_url @ u))) = (r, ms', fs')"
  shows "get_manpages_from_package e st pkg =
     ((case r of Continue \<Rightarrow> Returns None | ReturnTrue \<Rightarrow> Returns (Some True)
         | Raise err \<Rightarrow> Raises err),
      st\<lparr>dirs := insert (pjoin (output_dir e) pkg) (dirs st),
         packages := Some (AList.update p (cp\<lparr>members := Some ms', flushed := (r = Continue)\<rparr>) pk),
         files := (if r = Continue then fs'(mkstemp e := None) else fs')\<rparr>)"
proof -
  let ?st = "st\<lparr>dirs := insert (pjoin (output_dir e) pkg) (dirs st)\<rparr>"
  have "members_loop e df (pjoin (output_dir e) pkg) ms
           ((files ?st)(mkstemp e \<mapsto> http_get e (base_url @ u))) = (r, ms', fs')"
    using assms(8) by simp
  from fetch_record_loop [OF assms(4-7) this]
  show ?thesis
    by (simp add: get_manpages_found [OF assms(1-3)])
qed

lemma members_loop_stops:
  assumes "members_loop e df c pre fs = (Continue, pre', fs1)"
    and "process_member e df c m v fs1 = (r, v', fs2)" and "r \<noteq> Continue"
  shows "members_loop e df c (pre @ (m, v) # post) fs = (r, pre' @ (m, v') # post, fs2)"
  using assms by (cases r) (simp_all add: members_loop_append)

lemma members_loop_continues:
  assumes "members_loop e df c pre fs = (Continue, pre', fs1)"
    and "process_member e df c m v fs1 = (Continue, v', fs2)"
  shows "\<exists>r post' fs3. members_loop e df c (pre @ (m, v) # post) fs = (r, pre' @ (m, v') # post', fs3)"
  using assms by (simp add: members_loop_append split: prod.splits)

lemma process_member_raise:
  "process_member e df c m v fs = (Raise err, v', fs') \<Longrightarrow> err \<noteq> IndexError"
  by (auto simp: process_member_def Let_def
      split: if_splits option.splits get_file_result.splits)

lemma members_loop_raise:
  "members_loop e df c ms fs = (Raise err, ms', fs') \<Longrightarrow> err \<noteq> IndexError"
proof (induction ms arbitrary: fs ms' fs')
  case Nil
  then show ?case by simp
next
  case (Cons a ms)
  obtain m v where a: "a = (m, v)" by (cases a)
  obtain r1 v1 fs1 where pm: "process_member e df c m v fs = (r1, v1, fs1)"
    by (cases "process_member e df c m v fs")
  show ?case
  proof (cases r1)
    case Continue
    obtain r2 ms2 fs2 where lp: "members_loop e df c ms fs1 = (r2, ms2, fs2)"
      by (cases "members_loop e df c ms fs1")
    from Cons.prems a pm Continue lp have "r2 = Raise err" by simp
    with lp Cons.IH show ?thesis by blast
  next
    case ReturnTrue
    with Cons.prems a pm show ?thesis by simp
  next
    case (Raise x)
    with Cons.prems a pm have "x = err" by simp
    with Raise pm process_member_raise show ?thesis by blast
  qed
qed

lemma fetch_record_no_IndexError:
  "fst (fetch_record e st pk c p cp) \<noteq> Raises IndexError"
proof -
  have "r = Raise err \<Longrightarrow> members_loop e df c ms fs = (r, ms', fs') \<Longrightarrow> err \<noteq> IndexError"
    for r err df ms fs ms' fs'
    using members_loop_raise by blast
  then show ?thesis
    by (auto simp: fetch_record_def Let_def split: option.splits prod.splits flow.splits)
qed


subsection \<open>Members that are links without a target\<close>

text \<open>
  C1, as the specification states it: a pending member that is a symbolic link whose
  content cannot be read gets the state LinkOnly and the canonical name of the link
  target, and the link field is set only on members in state LinkOnly. In the example
  archive the member \<open>c.1.gz\<close> is such a link: it ends in state 2 with no link recorded,
  while the readable link \<open>b.1.gz\<close> gets its link field and ends in state 1.
\<close>

theorem link_target_not_recorded_for_dangling_link:
  "getmember ex_df ''./usr/share/man/man1/c.1.gz'' = Some \<lparr>issym = True, linkname = ''../man8/z.8.gz''\<rparr>
   \<and> get_file ex_df ''usr/share/man/man1/c.1.gz'' = RaisesKeyError
   \<and> getmember ex_df ''./usr/share/man/man1/b.1.gz'' = Some \<lparr>issym = True, linkname = ''a.1.gz''\<rparr>
   \<and> get_file ex_df ''usr/share/man/man1/b.1.gz'' = FileContents ''GZ''
   \<and> packages (snd (get_manpages_from_package ex_env
        (ex_fetcher [ex_member ''a'', ex_member ''b'', ex_member ''c'']) ''foo''))
      = Some [(PackageName ''main'' ''foo'',
          \<lparr>flushed = True,
           members = Some
             [(''usr/share/man/man1/a.1.gz'', \<lparr>name = ''a.1'', state = 1, link = None\<rparr>),
              (''usr/share/man/man1/b.1.gz'', \<lparr>name = ''b.1'', state = 1, link = Some ''a.1''\<rparr>),
              (''usr/share/man/man1/c.1.gz'', \<lparr>name = ''c.1'', state = 2, link = None\<rparr>)],
           ver = Some ''1.0'', url = Some ''pool/f/foo.deb'', desc = Some ''Foo tool'',
           todelete = None\<rparr>)]"
  by (simp add: ex_defs)


text \<open>
  C1, amended: for every archive record the call reaches the member loop of, a pending
  member the loop reaches that is a symbolic link whose content cannot be read
  (\<open>get_file\<close> raises \<open>KeyError\<close>) gets state 2 and is otherwise left as it was, its link
  field included. The loop changes a link field only of a pending member that is a
  symbolic link whose content could be read: the field becomes the canonical name of the
  link target, and the member does not end in state 2.
\<close>

theorem dangling_link_state_only:
  assumes "packages st = Some pk"
    and "filter (\<lambda>sp. pn_package sp = pkg) (map fst pk) = p # others"
    and "map_of pk p = Some cp"
    and "\<not> flushed cp" and "url cp = Some u"
    and "DebFile_data e (http_get e (base_url @ u)) = Some df"
    and "members cp = Some ms"
    and "fs = (files st)(mkstemp e \<mapsto> http_get e (base_url @ u))"
    and "ms' = fst (snd (members_loop e df (pjoin (output_dir e) pkg) ms fs))"
  shows "(\<exists>pk' cp'. packages (snd (get_manpages_from_package e st pkg)) = Some pk'
            \<and> map_of pk' p = Some cp' \<and> members cp' = Some ms')
       \<and> (\<forall>pre m v post item.
             ms = pre @ (m, v) # post
             \<and> fst (members_loop e df (pjoin (output_dir e) pkg) pre fs) = Continue
             \<and> state v = 0
             \<and> getmember df (''./'' @ m) = Some item \<and> issym item
             \<and> get_file df m = RaisesKeyError
             \<longrightarrow> ms' ! length pre = (m, v\<lparr>state := 2\<rparr>))
       \<and> length ms' = length ms
       \<and> (\<forall>i<length ms. fst (ms' ! i) = fst (ms ! i)
             \<and> (link (snd (ms' ! i)) \<noteq> link (snd (ms ! i)) \<longrightarrow>
                  state (snd (ms ! i)) = 0 \<and> state (snd (ms' ! i)) \<noteq> 2
                  \<and> (\<exists>item raw. getmember df (''./'' @ fst (ms ! i)) = Some item \<and> issym item
                        \<and> get_file df (fst (ms ! i)) = FileContents raw
                        \<and> link (snd (ms' ! i)) = Some (manpage_name (linkname item)))))"
proof -
  let ?c = "pjoin (output_dir e) pkg"
  obtain r fs' where lp: "members_loop e df ?c ms
      ((files st)(mkstemp e \<mapsto> http_get e (base_url @ u))) = (r, ms', fs')"
    using assms(8,9) by (cases "members_loop e df ?c ms fs") simp
  note eq = fetch_result_packages [OF assms(1-7) lp]
  have first: "\<exists>pk' cp'. packages (snd (get_manpages_from_package e st pkg)) = Some pk'
            \<and> map_of pk' p = Some cp' \<and> members cp' = Some ms'"
    by (simp add: eq AList.update_conv')
  have second: "ms' ! length pre = (m, v\<lparr>state := 2\<rparr>)"
    if h: "ms = pre @ (m, v) # post
             \<and> fst (members_loop e df ?c pre fs) = Continue
             \<and> state v = 0
             \<and> getmember df (''./'' @ m) = Some item \<and> issym item
             \<and> get_file df m = RaisesKeyError"
    for pre m v post item
  proof -
    obtain pre' fs1 where pl: "members_loop e df ?c pre fs = (Continue, pre', fs1)"
      using h by (cases "members_loop e df ?c pre fs") simp
    from h have pm: "process_member e df ?c m v fs1 = (Continue, v\<lparr>state := 2\<rparr>, fs1)"
      by (simp add: process_member_def)
    from members_loop_continues [OF pl pm, of post] h lp assms(8)
    obtain post' where "ms' = pre' @ (m, v\<lparr>state := 2\<rparr>) # post'"
      by auto
    moreover have "length pre' = length pre"
      using members_loop_pointwise [OF pl] by simp
    ultimately show ?thesis
      by (metis nth_append_length)
  qed
  note pw = members_loop_pointwise [OF lp]
  have third: "length ms' = length ms"
    using pw by simp
  have fourth: "fst (ms' ! i) = fst (ms ! i)
             \<and> (link (snd (ms' ! i)) \<noteq> link (snd (ms ! i)) \<longrightarrow>
                  state (snd (ms ! i)) = 0 \<and> state (snd (ms' ! i)) \<noteq> 2
                  \<and> (\<exists>item raw. getmember df (''./'' @ fst (ms ! i)) = Some item \<and> issym item
                        \<and> get_file df (fst (ms ! i)) = FileContents raw
                        \<and> link (snd (ms' ! i)) = Some (manpage_name (linkname item))))"
    if i: "i < length ms" for i
  proof (intro conjI impI)
    from pw i show "fst (ms' ! i) = fst (ms ! i)" by simp
  next
    assume ne: "link (snd (ms' ! i)) \<noteq> link (snd (ms ! i))"
    then have "snd (ms' ! i) \<noteq> snd (ms ! i)" by auto
    with pw i obtain fsa r1 fsb where
      "process_member e df ?c (fst (ms ! i)) (snd (ms ! i)) fsa = (r1, snd (ms' ! i), fsb)"
      by blast
    from process_member_link(2) [OF this ne]
    show "state (snd (ms ! i)) = 0" and "state (snd (ms' ! i)) \<noteq> 2"
      and "\<exists>item raw. getmember df (''./'' @ fst (ms ! i)) = Some item \<and> issym item
                        \<and> get_file df (fst (ms ! i)) = FileContents raw
                        \<and> link (snd (ms' ! i)) = Some (manpage_name (linkname item))"
      by simp_all
  qed
  from first second third fourth show ?thesis by blast
qed

theorem dangling_link_state_only_witness:
  "(\<exists>pk' cp'. packages (snd (get_manpages_from_package ex_env
         (ex_fetcher [ex_member ''a'', ex_member ''b'', ex_member ''c'']) ''foo'')) = Some pk'
       \<and> map_of pk' (PackageName ''main'' ''foo'') = Some cp'
       \<and> members cp' = Some
             [(''usr/share/man/man1/a.1.gz'', \<lparr>name = ''a.1'', state = 1, link = None\<rparr>),
              (''usr/share/man/man1/b.1.gz'', \<lparr>name = ''b.1'', state = 1, link = Some ''a.1''\<rparr>),
              (''usr/share/man/man1/c.1.gz'', \<lparr>name = ''c.1'', state = 2, link = None\<rparr>)])
   \<and> getmember ex_df ''./usr/share/man/man1/c.1.gz'' = Some \<lparr>issym = True, linkname = ''../man8/z.8.gz''\<rparr>
   \<and> get_file ex_df ''usr/share/man/man1/c.1.gz'' = RaisesKeyError"
proof -
  let ?ms = "[ex_member ''a'', ex_member ''b'', ex_member ''c'']"
  let ?fs = "(files (ex_fetcher ?ms))(mkstemp ex_env \<mapsto> http_get ex_env (base_url @ ''pool/f/foo.deb''))"
  have h1: "packages (ex_fetcher ?ms) = Some [(PackageName ''main'' ''foo'', ex_package ?ms)]"
    by (simp add: ex_fetcher_def)
  have h2: "filter (\<lambda>sp. pn_package sp = ''foo'')
      (map fst [(PackageName ''main'' ''foo'', ex_package ?ms)]) = PackageName ''main'' ''foo'' # []"
    by simp
  have h3: "map_of [(PackageName ''main'' ''foo'', ex_package ?ms)] (PackageName ''main'' ''foo'')
      = Some (ex_package ?ms)"
    by simp
  have h4: "\<not> flushed (ex_package ?ms)" by (simp add: ex_package_def)
  have h5: "url (ex_package ?ms) = Some ''pool/f/foo.deb''" by (simp add: ex_package_def)
  have h6: "DebFile_data ex_env (http_get ex_env (base_url @ ''pool/f/foo.deb'')) = Some ex_df"
    by (simp add: ex_env_def)
  have h7: "members (ex_package ?ms) = Some ?ms" by (simp add: ex_package_def)
  note T = dangling_link_state_only [OF h1 h2 h3 h4 h5 h6 h7 refl refl]
  have ms': "fst (snd (members_loop ex_env ex_df (pjoin (output_dir ex_env) ''foo'') ?ms ?fs))
     = [(''usr/share/man/man1/a.1.gz'', \<lparr>name = ''a.1'', state = 1, link = None\<rparr>),
        (''usr/share/man/man1/b.1.gz'', \<lparr>name = ''b.1'', state = 1, link = Some ''a.1''\<rparr>),
        (''usr/share/man/man1/c.1.gz'', \<lparr>name = ''c.1'', state = 2, link = None\<rparr>)]"
    by (simp add: ex_defs)
  have c: "getmember ex_df ''./usr/share/man/man1/c.1.gz'' = Some \<lparr>issym = True, linkname = ''../man8/z.8.gz''\<rparr>
   \<and> get_file ex_df ''usr/share/man/man1/c.1.gz'' = RaisesKeyError"
    by (simp add: ex_df_def)
  from T [THEN conjunct1] c show ?thesis
    unfolding ms' by simp
qed


subsection \<open>Abandoning an archive\<close>

text \<open>
  C2: when the loop reaches a pending member whose entry cannot be read (\<open>getmember\<close> or
  \<open>get_file\<close> raises \<open>KeyError\<close>) and that is no symbolic link, the call stops there: the
  members before it keep the records the loop gave them, this member and the later ones
  are unchanged, and the record stays unflushed. In general the record written back has
  \<open>flushed\<close> true exactly when the loop ran to its end.
\<close>

theorem abandonment_leaves_archive_unflushed:
  assumes "packages st = Some pk"
    and "filter (\<lambda>sp. pn_package sp = pkg) (map fst pk) = p # others"
    and "map_of pk p = Some cp"
    and "\<not> flushed cp" and "url cp = Some u"
    and "DebFile_data e (http_get e (base_url @ u)) = Some df"
    and "members cp = Some ms"
    and "fs = (files st)(mkstemp e \<mapsto> http_get e (base_url @ u))"
    and "r = fst (members_loop e df (pjoin (output_dir e) pkg) ms fs)"
    and "ms' = fst (snd (members_loop e df (pjoin (output_dir e) pkg) ms fs))"
  shows "(\<exists>pk'. packages (snd (get_manpages_from_package e st pkg)) = Some pk'
            \<and> map fst pk' = map fst pk
            \<and> map_of pk' p = Some (cp\<lparr>members := Some ms', flushed := (r = Continue)\<rparr>))
       \<and> (\<forall>pre m v post.
             ms = pre @ (m, v) # post
             \<and> fst (members_loop e df (pjoin (output_dir e) pkg) pre fs) = Continue
             \<and> state v = 0
             \<and> (case getmember df (''./'' @ m) of
                   None \<Rightarrow> True
                 | Some item \<Rightarrow> \<not> issym item \<and> get_file df m = RaisesKeyError)
             \<longrightarrow> ms' = fst (snd (members_loop e df (pjoin (output_dir e) pkg) pre fs)) @ (m, v) # post
                 \<and> r = (if getmember df (''./'' @ m) = None then Raise KeyError else ReturnTrue)
                 \<and> fst (get_manpages_from_package e st pkg)
                     = (if getmember df (''./'' @ m) = None then Raises KeyError
                        else Returns (Some True)))"
proof -
  obtain fs' where lp: "members_loop e df (pjoin (output_dir e) pkg) ms
      ((files st)(mkstemp e \<mapsto> http_get e (base_url @ u))) = (r, ms', fs')"
    using assms(8-10) by (cases "members_loop e df (pjoin (output_dir e) pkg) ms fs") simp
  note eq = fetch_result_packages [OF assms(1-7) lp]
  have keys: "map fst (AList.update p (cp\<lparr>members := Some ms', flushed := (r = Continue)\<rparr>) pk)
      = map fst pk"
    using assms(3) by (simp add: AList.update_keys map_of_eq_None_iff [symmetric] del: map_of_eq_None_iff)
  have first: "\<exists>pk'. packages (snd (get_manpages_from_package e st pkg)) = Some pk'
            \<and> map fst pk' = map fst pk
            \<and> map_of pk' p = Some (cp\<lparr>members := Some ms', flushed := (r = Continue)\<rparr>)"
    using keys by (simp add: eq AList.update_conv')
  have second: "ms' = fst (snd (members_loop e df (pjoin (output_dir e) pkg) pre fs)) @ (m, v) # post
                 \<and> r = (if getmember df (''./'' @ m) = None then Raise KeyError else ReturnTrue)
                 \<and> fst (get_manpages_from_package e st pkg)
                     = (if getmember df (''./'' @ m) = None then Raises KeyError
                        else Returns (Some True))"
    if h: "ms = pre @ (m, v) # post
             \<and> fst (members_loop e df (pjoin (output_dir e) pkg) pre fs) = Continue
             \<and> state v = 0
             \<and> (case getmember df (''./'' @ m) of
                   None \<Rightarrow> True
                 | Some item \<Rightarrow> \<not> issym item \<and> get_file df m = RaisesKeyError)"
    for pre m v post
  proof -
    let ?r = "if getmember df (''./'' @ m) = None then Raise KeyError else ReturnTrue"
    obtain pre' fs1 where pl: "members_loop e df (pjoin (output_dir e) pkg) pre fs = (Continue, pre', fs1)"
      using h by (cases "members_loop e df (pjoin (output_dir e) pkg) pre fs") simp
    from h have pm: "process_member e df (pjoin (output_dir e) pkg) m v fs1 = (?r, v, fs1)"
      by (auto simp: process_member_def split: option.splits)
    have "?r \<noteq> Continue" by simp
    from members_loop_stops [OF pl pm this, of post] h lp assms(8)
    have res: "r = ?r \<and> ms' = pre' @ (m, v) # post"
      by simp
    with pl show ?thesis
      by (simp add: eq)
  qed
  from first second show ?thesis by blast
qed
theorem abandonment_leaves_archive_unflushed_witness:
  "fst (get_manpages_from_package ex_env
      (ex_fetcher [ex_member ''a'', ex_member ''d'', ex_member ''c'']) ''foo'') = Returns (Some True)
   \<and> (\<exists>pk'. packages (snd (get_manpages_from_package ex_env
          (ex_fetcher [ex_member ''a'', ex_member ''d'', ex_member ''c'']) ''foo'')) = Some pk'
        \<and> map_of pk' (PackageName ''main'' ''foo'') =
            Some (ex_package
              [(''usr/share/man/man1/a.1.gz'', \<lparr>name = ''a.1'', state = 1, link = None\<rparr>),
               ex_member ''d'', ex_member ''c'']))"
proof -
  let ?ms = "[ex_member ''a'', ex_member ''d'', ex_member ''c'']"
  let ?fs = "(files (ex_fetcher ?ms))(mkstemp ex_env \<mapsto> http_get ex_env (base_url @ ''pool/f/foo.deb''))"
  have h1: "packages (ex_fetcher ?ms) = Some [(PackageName ''main'' ''foo'', ex_package ?ms)]"
    by (simp add: ex_fetcher_def)
  have h2: "filter (\<lambda>sp. pn_package sp = ''foo'')
      (map fst [(PackageName ''main'' ''foo'', ex_package ?ms)]) = PackageName ''main'' ''foo'' # []"
    by simp
  have h3: "map_of [(PackageName ''main'' ''foo'', ex_package ?ms)] (PackageName ''main'' ''foo'')
      = Some (ex_package ?ms)"
    by simp
  have h4: "\<not> flushed (ex_package ?ms)" by (simp add: ex_package_def)
  have h5: "url (ex_package ?ms) = Some ''pool/f/foo.deb''" by (simp add: ex_package_def)
  have h6: "DebFile_data ex_env (http_get ex_env (base_url @ ''pool/f/foo.deb'')) = Some ex_df"
    by (simp add: ex_env_def)
  have h7: "members (ex_package ?ms) = Some ?ms" by (simp add: ex_package_def)
  note T = abandonment_leaves_archive_unflushed [OF h1 h2 h3 h4 h5 h6 h7 refl refl refl]
  have r: "fst (members_loop ex_env ex_df (pjoin (output_dir ex_env) ''foo'') ?ms ?fs) = ReturnTrue"
    by (simp add: ex_defs)
  have ms': "fst (snd (members_loop ex_env ex_df (pjoin (output_dir ex_env) ''foo'') ?ms ?fs))
     = [(''usr/share/man/man1/a.1.gz'', \<lparr>name = ''a.1'', state = 1, link = None\<rparr>),
               ex_member ''d'', ex_member ''c'']"
    by (simp add: ex_defs)
  have pre: "?ms = [ex_member ''a''] @ (''usr/share/man/man1/d.1.gz'', snd (ex_member ''d'')) # [ex_member ''c'']
      \<and> fst (members_loop ex_env ex_df (pjoin (output_dir ex_env) ''foo'') [ex_member ''a''] ?fs) = Continue
      \<and> state (snd (ex_member ''d'')) = 0
      \<and> (case getmember ex_df (''./'' @ ''usr/share/man/man1/d.1.gz'') of
                   None \<Rightarrow> True
                 | Some item \<Rightarrow> \<not> issym item \<and> get_file ex_df ''usr/share/man/man1/d.1.gz'' = RaisesKeyError)"
    by (simp add: ex_defs)
  have g: "getmember ex_df (''./'' @ ''usr/share/man/man1/d.1.gz'') \<noteq> None"
    by (simp add: ex_df_def)
  from T have A: "\<exists>pk'. packages (snd (get_manpages_from_package ex_env (ex_fetcher ?ms) ''foo'')) = Some pk'
        \<and> map fst pk' = map fst [(PackageName ''main'' ''foo'', ex_package ?ms)]
        \<and> map_of pk' (PackageName ''main'' ''foo'') =
            Some ((ex_package ?ms)\<lparr>members := Some
              [(''usr/share/man/man1/a.1.gz'', \<lparr>name = ''a.1'', state = 1, link = None\<rparr>),
               ex_member ''d'', ex_member ''c''], flushed := (ReturnTrue = Continue)\<rparr>)"
    unfolding r ms' by (rule conjunct1)
  have B: "fst (get_manpages_from_package ex_env (ex_fetcher ?ms) ''foo'')
      = (if getmember ex_df (''./'' @ ''usr/share/man/man1/d.1.gz'') = None then Raises KeyError
         else Returns (Some True))"
    using T [THEN conjunct2, rule_format, OF pre] by (rule conjunct2 [THEN conjunct2])
  have C: "(ex_package ?ms)\<lparr>members := Some
              [(''usr/share/man/man1/a.1.gz'', \<lparr>name = ''a.1'', state = 1, link = None\<rparr>),
               ex_member ''d'', ex_member ''c''], flushed := (ReturnTrue = Continue)\<rparr>
     = ex_package
              [(''usr/share/man/man1/a.1.gz'', \<lparr>name = ''a.1'', state = 1, link = None\<rparr>),
               ex_member ''d'', ex_member ''c'']"
    by (simp add: ex_package_def)
  from A obtain pk' where "packages (snd (get_manpages_from_package ex_env (ex_fetcher ?ms) ''foo'')) = Some pk'"
    and "map_of pk' (PackageName ''main'' ''foo'') = Some (ex_package
              [(''usr/share/man/man1/a.1.gz'', \<lparr>name = ''a.1'', state = 1, link = None\<rparr>),
               ex_member ''d'', ex_member ''c''])"
    unfolding C by blast
  with B g show ?thesis by simp
qed

subsection \<open>The temporary file\<close>

text \<open>
  C9: the temporary file is to be deleted on every exit path. On the example archive with
  the members \<open>a\<close>, \<open>d\<close>, \<open>c\<close> the call returns from inside the loop at \<open>d\<close> and the
  temporary file is still there; with the members \<open>a\<close>, \<open>b\<close>, \<open>c\<close> the loop completes
  and the file is gone.
\<close>

theorem tmpfile_kept_on_abandonment:
  "fst (get_manpages_from_package ex_env
      (ex_fetcher [ex_member ''a'', ex_member ''d'', ex_member ''c'']) ''foo'') = Returns (Some True)
   \<and> files (snd (get_manpages_from_package ex_env
      (ex_fetcher [ex_member ''a'', ex_member ''d'', ex_member ''c'']) ''foo'')) (mkstemp ex_env)
       = Some ''DEB''
   \<and> fst (get_manpages_from_package ex_env
      (ex_fetcher [ex_member ''a'', ex_member ''b'', ex_member ''c'']) ''foo'') = Returns None
   \<and> files (snd (get_manpages_from_package ex_env
      (ex_fetcher [ex_member ''a'', ex_member ''b'', ex_member ''c'']) ''foo'')) (mkstemp ex_env)
       = None"
  by (simp add: ex_defs)


subsection \<open>Looking the archive up by name\<close>

text \<open>
  C10: \<open>get_manpages_from_package\<close>, and \<open>fetchone\<close> through it, needs a key of the loaded
  cache whose package component is the given name. With no such key the call raises
  \<open>IndexError\<close>, after the output directory was created and with nothing else changed
  (\<open>fetchone\<close> does not save the cache). With such a key the first one in the order of the
  cache is used, its record exists, and the call does not raise \<open>IndexError\<close>.
\<close>

theorem lookup_by_package_name:
  assumes "load_packages st = Inr st1" and "packages st1 = Some pk"
  shows "(filter (\<lambda>sp. pn_package sp = pkg) (map fst pk) = [] \<longrightarrow>
            get_manpages_from_package e st1 pkg
              = (Raises IndexError, st1\<lparr>dirs := insert (pjoin (output_dir e) pkg) (dirs st1)\<rparr>)
            \<and> fetchone e st pkg
              = (Raises IndexError, st1\<lparr>dirs := insert (pjoin (output_dir e) pkg) (dirs st1)\<rparr>))
       \<and> (filter (\<lambda>sp. pn_package sp = pkg) (map fst pk) \<noteq> [] \<longrightarrow>
            (\<exists>pre p post cp. map fst pk = pre @ p # post
               \<and> filter (\<lambda>sp. pn_package sp = pkg) pre = [] \<and> pn_package p = pkg
               \<and> map_of pk p = Some cp
               \<and> get_manpages_from_package e st1 pkg
                   = fetch_record e (st1\<lparr>dirs := insert (pjoin (output_dir e) pkg) (dirs st1)\<rparr>) pk
                       (pjoin (output_dir e) pkg) p cp)
            \<and> fst (get_manpages_from_package e st1 pkg) \<noteq> Raises IndexError
            \<and> fst (fetchone e st pkg) \<noteq> Raises IndexError)"
proof (intro conjI impI)
  let ?c = "pjoin (output_dir e) pkg"
  let ?st = "st1\<lparr>dirs := insert ?c (dirs st1)\<rparr>"
  have absorb: "?c \<in> dirs st1 \<Longrightarrow> ?st = st1"
    by (simp add: insert_absorb)
  {
    assume none: "filter (\<lambda>sp. pn_package sp = pkg) (map fst pk) = []"
    show g: "get_manpages_from_package e st1 pkg = (Raises IndexError, ?st)"
    proof (cases "?c \<in> dirs st1")
      case True
      with absorb [OF True] assms(2) none show ?thesis
        by (simp add: get_manpages_from_package_def Let_def)
    next
      case False
      with assms(2) none show ?thesis
        by (simp add: get_manpages_from_package_def Let_def)
    qed
    show "fetchone e st pkg = (Raises IndexError, ?st)"
      by (simp add: fetchone_def assms(1) g)
  }
  {
    assume some: "filter (\<lambda>sp. pn_package sp = pkg) (map fst pk) \<noteq> []"
    then obtain p others where f: "filter (\<lambda>sp. pn_package sp = pkg) (map fst pk) = p # others"
      by (cases "filter (\<lambda>sp. pn_package sp = pkg) (map fst pk)") auto
    then obtain pre post where split: "map fst pk = pre @ p # post"
      and pre: "\<forall>u\<in>set pre. pn_package u \<noteq> pkg" and pp: "pn_package p = pkg"
      unfolding filter_eq_Cons_iff by blast
    from split have "p \<in> set (map fst pk)" by simp
    then obtain cp where cp: "map_of pk p = Some cp"
      by (metis map_of_eq_None_iff not_Some_eq set_map)
    note eq = get_manpages_found [OF assms(2) f cp, of e]
    from pre have "filter (\<lambda>sp. pn_package sp = pkg) pre = []"
      by (simp add: filter_empty_conv)
    with split pp cp eq
    show "\<exists>pre p post cp. map fst pk = pre @ p # post
               \<and> filter (\<lambda>sp. pn_package sp = pkg) pre = [] \<and> pn_package p = pkg
               \<and> map_of pk p = Some cp
               \<and> get_manpages_from_package e st1 pkg = fetch_record e ?st pk ?c p cp"
      by blast
    show ni: "fst (get_manpages_from_package e st1 pkg) \<noteq> Raises IndexError"
      unfolding eq by (rule fetch_record_no_IndexError)
    show "fst (fetchone e st pkg) \<noteq> Raises IndexError"
      using ni by (auto simp: fetchone_def assms(1) split: prod.splits outcome.splits)
  }
qed

theorem lookup_by_package_name_witness:
  "load_packages (ex_fetcher [ex_member ''a'']) = Inr (ex_fetcher [ex_member ''a''])
   \<and> fetchone ex_env (ex_fetcher [ex_member ''a'']) ''bar''
       = (Raises IndexError, (ex_fetcher [ex_member ''a''])\<lparr>dirs := {''output/bar''}\<rparr>)
   \<and> fst (fetchone ex_env (ex_fetcher [ex_member ''a'']) ''foo'') \<noteq> Raises IndexError"
proof -
  let ?st = "ex_fetcher [ex_member ''a'']"
  have h1: "load_packages ?st = Inr ?st"
    by (simp add: load_packages_def ex_fetcher_def)
  have h2: "packages ?st = Some [(PackageName ''main'' ''foo'', ex_package [ex_member ''a''])]"
    by (simp add: ex_fetcher_def)
  have bar: "filter (\<lambda>sp. pn_package sp = ''bar'')
      (map fst [(PackageName ''main'' ''foo'', ex_package [ex_member ''a''])]) = []"
    by simp
  have foo: "filter (\<lambda>sp. pn_package sp = ''foo'')
      (map fst [(PackageName ''main'' ''foo'', ex_package [ex_member ''a''])]) \<noteq> []"
    by simp
  have d: "insert (pjoin (output_dir ex_env) ''bar'') (dirs ?st) = {''output/bar''}"
    by (simp add: ex_env_def ex_fetcher_def pjoin_def startswith_def endswith_def)
  from lookup_by_package_name [OF h1 h2, of "''bar''" ex_env] bar
  have "fetchone ex_env ?st ''bar''
      = (Raises IndexError, ?st\<lparr>dirs := insert (pjoin (output_dir ex_env) ''bar'') (dirs ?st)\<rparr>)"
    by blast
  moreover from lookup_by_package_name [OF h1 h2, of "''foo''" ex_env] foo
  have "fst (fetchone ex_env ?st ''foo'') \<noteq> Raises IndexError"
    by blast
  ultimately show ?thesis
    using h1 d by simp
qed

section \<open>Building and updating the cache\<close>

lemmas cache_defs = rebuild_cache_def update_cache_def mark_todelete_def register_def add_member_def
  DebianPackage_init_def stanza_key_def deb_normalize_member_def
  is_manpage_def count_str_def bname_def manpage_name_def endswith_def startswith_def
  splitext_def str_isdigit_def isdigit_def rsplit1_def isspace_def Let_def
  ex_contents_def ex_stanza_def ex_record_def


subsection \<open>The index scan as a list of registrations\<close>

lemma register_all_Nil: "register_all nm [] c = c"
  by (simp add: register_all_def)

lemma register_all_Cons: "register_all nm ((f, k) # xs) c = register_all nm xs (register nm f k c)"
  by (simp add: register_all_def)

lemma register_all_append:
  "register_all nm (xs @ ys) c = register_all nm ys (register_all nm xs c)"
  by (simp add: register_all_def)

lemma rebuild_locations_pairs:
  "rebuild_locations nm file ps c =
     (case location_pairs file ps of Inl e \<Rightarrow> Inl e | Inr xs \<Rightarrow> Inr (register_all nm xs c))"
proof (induction ps arbitrary: c)
  case Nil
  then show ?case by (simp add: register_all_Nil)
next
  case (Cons p ps)
  show ?case
    by (simp add: Cons.IH register_all_Cons split: list.splits sum.splits)
qed

lemma rebuild_lines_pairs:
  "rebuild_lines nm h ls c =
     (case index_pairs h ls of Inl e \<Rightarrow> Inl e | Inr xs \<Rightarrow> Inr (register_all nm xs c))"
proof (induction ls arbitrary: h c)
  case Nil
  then show ?case by (simp add: register_all_Nil)
next
  case (Cons l ls)
  show ?case
    by (simp add: Cons.IH rebuild_locations_pairs register_all_append
        split: list.splits sum.splits)
qed

lemma update_locations_pairs:
  "update_locations nm file ps (c, s) =
     (case location_pairs file ps of
        Inl e \<Rightarrow> Inl e
      | Inr xs \<Rightarrow> Inr (register_all nm xs c, s \<union> snd ` set xs))"
proof (induction ps arbitrary: c s)
  case Nil
  then show ?case by (simp add: register_all_Nil)
next
  case (Cons p ps)
  show ?case
    by (simp add: Cons.IH register_all_Cons split: list.splits sum.splits)
qed

lemma update_lines_pairs:
  "update_lines nm h ls (c, s) =
     (case index_pairs h ls of
        Inl e \<Rightarrow> Inl e
      | Inr xs \<Rightarrow> Inr (register_all nm xs c, s \<union> snd ` set xs))"
proof (induction ls arbitrary: h c s)
  case Nil
  then show ?case by (simp add: register_all_Nil)
next
  case (Cons l ls)
  show ?case
    by (simp add: Cons.IH update_locations_pairs register_all_append Un_assoc image_Un
        split: list.splits sum.splits)
qed

lemma map_of_register:
  "map_of (register nm f k c) k' =
     (if k' = k
      then Some (add_member nm (case map_of c k of None \<Rightarrow> DebianPackage_init | Some r \<Rightarrow> r) f)
      else map_of c k')"
  by (simp add: register_def AList.update_conv')

lemma add_member_frame:
  "ver (add_member nm r f) = ver r" "url (add_member nm r f) = url r"
  "desc (add_member nm r f) = desc r" "todelete (add_member nm r f) = todelete r"
  by (simp_all add: add_member_def Let_def)

lemma add_member_has:
  "\<exists>ms. members (add_member nm r f) = Some ms \<and> map_of ms (nm f) \<noteq> None"
  by (auto simp: add_member_def Let_def map_add_def split: option.splits)

lemma add_member_keeps:
  "members r = Some ms \<Longrightarrow> map_of ms m \<noteq> None \<Longrightarrow>
     \<exists>ms'. members (add_member nm r f) = Some ms' \<and> map_of ms' m \<noteq> None"
  by (auto simp: add_member_def Let_def map_add_def split: option.splits)


lemma registered_register_new: "registered (register nm f k c) k (nm f)"
proof -
  let ?r = "case map_of c k of None \<Rightarrow> DebianPackage_init | Some r \<Rightarrow> r"
  from add_member_has [of nm ?r f]
  obtain ms where "members (add_member nm ?r f) = Some ms" and "map_of ms (nm f) \<noteq> None"
    by blast
  then show ?thesis
    by (simp add: registered_def map_of_register)
qed

lemma registered_register_mono:
  assumes "registered c k m"
  shows "registered (register nm f k' c) k m"
proof (cases "k = k'")
  case True
  from assms obtain r ms where r: "map_of c k = Some r" "members r = Some ms" "map_of ms m \<noteq> None"
    by (auto simp: registered_def split: option.splits)
  from add_member_keeps [OF r(2,3), of nm f] r(1) True show ?thesis
    by (auto simp: registered_def map_of_register)
next
  case False
  with assms show ?thesis
    by (simp add: registered_def map_of_register)
qed

lemma registered_register_all_mono:
  "registered c k m \<Longrightarrow> registered (register_all nm xs c) k m"
proof (induction xs arbitrary: c)
  case Nil
  then show ?case by (simp add: register_all_Nil)
next
  case (Cons x xs)
  obtain f k' where x: "x = (f, k')" by (cases x)
  from Cons show ?case
    unfolding x register_all_Cons by (simp add: registered_register_mono)
qed

lemma registered_register_all:
  "(f, k) \<in> set xs \<Longrightarrow> registered (register_all nm xs c) k (nm f)"
proof (induction xs arbitrary: c)
  case Nil
  then show ?case by simp
next
  case (Cons x xs)
  obtain f' k' where x: "x = (f', k')" by (cases x)
  show ?case
  proof (cases "(f, k) = x")
    case True
    then show ?thesis
      unfolding x register_all_Cons
      using registered_register_all_mono [OF registered_register_new] by simp
  next
    case False
    with Cons.prems have "(f, k) \<in> set xs" by simp
    from Cons.IH [OF this] show ?thesis
      unfolding x register_all_Cons .
  qed
qed

lemma register_all_unseen:
  "k \<notin> snd ` set xs \<Longrightarrow> map_of (register_all nm xs c) k = map_of c k"
proof (induction xs arbitrary: c)
  case Nil
  then show ?case by (simp add: register_all_Nil)
next
  case (Cons x xs)
  obtain f k' where x: "x = (f, k')" by (cases x)
  from Cons.prems x have "k \<noteq> k'" and "k \<notin> snd ` set xs" by auto
  with Cons.IH show ?case
    unfolding x register_all_Cons by (simp add: map_of_register)
qed

lemma register_all_keys:
  "fst ` set (register_all nm xs c) = fst ` set c \<union> snd ` set xs"
proof (induction xs arbitrary: c)
  case Nil
  then show ?case by (simp add: register_all_Nil)
next
  case (Cons x xs)
  obtain f k' where x: "x = (f, k')" by (cases x)
  show ?case
    unfolding x register_all_Cons Cons.IH
    by (auto simp: register_def AList.dom_update)
qed

lemma register_all_frame:
  "map_of c k = Some r \<Longrightarrow>
     \<exists>r'. map_of (register_all nm xs c) k = Some r' \<and> ver r' = ver r \<and> url r' = url r
        \<and> desc r' = desc r \<and> todelete r' = todelete r"
proof (induction xs arbitrary: c r)
  case Nil
  then show ?case by (simp add: register_all_Nil)
next
  case (Cons x xs)
  obtain f k' where x: "x = (f, k')" by (cases x)
  show ?case
  proof (cases "k = k'")
    case True
    with Cons.prems have "map_of (register nm f k' c) k = Some (add_member nm r f)"
      by (simp add: map_of_register)
    from Cons.IH [OF this] show ?thesis
      unfolding x register_all_Cons by (simp add: add_member_frame)
  next
    case False
    with Cons.prems have "map_of (register nm f k' c) k = Some r"
      by (simp add: map_of_register)
    from Cons.IH [OF this] show ?thesis
      unfolding x register_all_Cons .
  qed
qed



lemma map_of_mark_todelete:
  "map_of (mark_todelete s c) k =
     map_option (\<lambda>r. if k \<in> s then r else r\<lparr>todelete := Some True\<rparr>) (map_of c k)"
  by (induction c) (auto simp: mark_todelete_def)

lemma mark_todelete_keys: "map fst (mark_todelete s c) = map fst c"
  by (induction c) (auto simp: mark_todelete_def)


subsection \<open>The metadata pass of update_cache\<close>

lemma update_metadata_step:
  assumes "update_metadata (b # bs) c = Inr c'"
  shows "\<exists>p c1. stanza_key b = Some p \<and> update_metadata bs c1 = Inr c' \<and>
     (map_of c p = None \<and> c1 = c \<or>
      (\<exists>r v0 v. map_of c p = Some r \<and> ver r = Some v0 \<and> Version b = Some v \<and>
         (v0 = v \<and> c1 = c \<or>
          v0 \<noteq> v \<and> (\<exists>f d. Filename b = Some f \<and> Description b = Some d \<and>
             c1 = AList.map_entry p
                (\<lambda>r. r\<lparr>ver := Some v, url := Some f, desc := Some d, flushed := False\<rparr>) c))))"
  using assms by (auto split: option.splits if_splits)

lemma map_entry_keys: "map fst (AList.map_entry p f c) = map fst c"
  by (induction c) auto

lemma update_metadata_keys:
  "update_metadata bs c = Inr c' \<Longrightarrow> map fst c' = map fst c"
proof (induction bs arbitrary: c)
  case Nil
  then show ?case by simp
next
  case (Cons b bs)
  from update_metadata_step [OF Cons.prems]
  obtain c1 where c1: "update_metadata bs c1 = Inr c'" and "map fst c1 = map fst c"
    by (auto simp: map_entry_keys)
  with Cons.IH [OF c1] show ?case by simp
qed

lemma update_metadata_frame:
  "update_metadata bs c = Inr c' \<Longrightarrow> map_of c k = Some r \<Longrightarrow>
     (\<forall>b\<in>set bs. stanza_key b = Some k \<longrightarrow> Version b = ver r) \<Longrightarrow> map_of c' k = Some r"
proof (induction bs arbitrary: c)
  case Nil
  then show ?case by simp
next
  case (Cons b bs)
  from update_metadata_step [OF Cons.prems(1)]
  obtain p c1 where p: "stanza_key b = Some p" and c1: "update_metadata bs c1 = Inr c'"
    and alt: "map_of c p = None \<and> c1 = c \<or>
      (\<exists>r v0 v. map_of c p = Some r \<and> ver r = Some v0 \<and> Version b = Some v \<and>
         (v0 = v \<and> c1 = c \<or>
          v0 \<noteq> v \<and> (\<exists>f d. Filename b = Some f \<and> Description b = Some d \<and>
             c1 = AList.map_entry p
                (\<lambda>r. r\<lparr>ver := Some v, url := Some f, desc := Some d, flushed := False\<rparr>) c)))"
    by blast
  have "map_of c1 k = Some r"
  proof (cases "p = k")
    case True
    with p Cons.prems(3) have "Version b = ver r" by simp
    with alt True Cons.prems(2) show ?thesis by auto
  next
    case False
    with alt Cons.prems(2) show ?thesis
      by (auto simp: map_of_map_entry)
  qed
  moreover from Cons.prems(3) have "\<forall>b\<in>set bs. stanza_key b = Some k \<longrightarrow> Version b = ver r"
    by simp
  ultimately show ?case
    using Cons.IH [OF c1] by blast
qed

lemma update_metadata_other:
  assumes "update_metadata (b # bs) c = Inr c'" and "stanza_key b \<noteq> Some k"
  shows "\<exists>c1. update_metadata bs c1 = Inr c' \<and> map_of c1 k = map_of c k"
proof -
  from update_metadata_step [OF assms(1)]
  obtain p c1 where p: "stanza_key b = Some p" and c1: "update_metadata bs c1 = Inr c'"
    and alt: "c1 = c \<or> (\<exists>f. c1 = AList.map_entry p f c)"
    by blast
  from p assms(2) have "p \<noteq> k" by simp
  with alt have "map_of c1 k = map_of c k"
    by (auto simp: map_of_map_entry)
  with c1 show ?thesis by blast
qed

lemma update_metadata_this:
  assumes "update_metadata (b # bs) c = Inr c'" and "stanza_key b = Some k"
    and "map_of c k = Some r" and "ver r = Some v1" and "Version b = Some v2" and "v2 \<noteq> v1"
  shows "Filename b \<noteq> None \<and> Description b \<noteq> None \<and>
     update_metadata bs
       (AList.map_entry k (\<lambda>r. r\<lparr>ver := Version b, url := Filename b, desc := Description b,
                                 flushed := False\<rparr>) c) = Inr c'"
proof -
  have eq: "update_metadata (b # bs) c =
     (case (Filename b, Description b) of
        (Some f, Some d) \<Rightarrow>
          update_metadata bs
            (AList.map_entry k
               (\<lambda>r. r\<lparr>ver := Some v2, url := Some f, desc := Some d, flushed := False\<rparr>) c)
      | _ \<Rightarrow> Inl KeyError)"
    using assms(2-6) by simp
  show ?thesis
  proof (cases "Filename b")
    case None
    with eq assms(1) show ?thesis by simp
  next
    case f: (Some f)
    show ?thesis
    proof (cases "Description b")
      case None
      with eq f assms(1) show ?thesis by simp
    next
      case (Some d)
      with eq f assms(1,5) show ?thesis by simp
    qed
  qed
qed

lemma update_metadata_change:
  "update_metadata bs c = Inr c' \<Longrightarrow> map_of c k = Some r \<Longrightarrow> ver r = Some v1 \<Longrightarrow>
     b \<in> set bs \<Longrightarrow> stanza_key b = Some k \<Longrightarrow> Version b = Some v2 \<Longrightarrow> v2 \<noteq> v1 \<Longrightarrow>
     (\<forall>b'\<in>set bs. stanza_key b' = Some k \<longrightarrow> b' = b) \<Longrightarrow>
     Filename b \<noteq> None \<and> Description b \<noteq> None \<and>
     map_of c' k = Some (r\<lparr>ver := Version b, url := Filename b, desc := Description b,
                            flushed := False\<rparr>)"
proof (induction bs arbitrary: c)
  case Nil
  from Nil.prems(4) show ?case by simp
next
  case (Cons b0 bs)
  from Cons.prems(8) have rest: "\<forall>b'\<in>set bs. stanza_key b' = Some k \<longrightarrow> b' = b"
    by simp
  show ?case
  proof (cases "stanza_key b0 = Some k")
    case True
    with Cons.prems(8) have b0: "b0 = b" by simp
    let ?r = "r\<lparr>ver := Version b, url := Filename b, desc := Description b, flushed := False\<rparr>"
    let ?c = "AList.map_entry k (\<lambda>r. r\<lparr>ver := Version b, url := Filename b,
                 desc := Description b, flushed := False\<rparr>) c"
    from update_metadata_this [OF Cons.prems(1) [unfolded b0] Cons.prems(5,2,3,6,7)]
    have fd: "Filename b \<noteq> None \<and> Description b \<noteq> None"
      and c1: "update_metadata bs ?c = Inr c'"
      by simp_all
    have m1: "map_of ?c k = Some ?r"
      using Cons.prems(2) by (simp add: map_of_map_entry)
    from rest Cons.prems(6) have "\<forall>b'\<in>set bs. stanza_key b' = Some k \<longrightarrow> Version b' = ver ?r"
      by auto
    from update_metadata_frame [OF c1 m1 this] fd show ?thesis
      by simp
  next
    case False
    with Cons.prems(4,5) have b: "b \<in> set bs" by auto
    from update_metadata_other [OF Cons.prems(1) False] Cons.prems(2)
    obtain c1 where c1: "update_metadata bs c1 = Inr c'" and m: "map_of c1 k = Some r"
      by auto
    from Cons.IH [OF c1 m Cons.prems(3) b Cons.prems(5,6,7) rest] show ?thesis .
  qed
qed

lemma update_cache_unfold:
  assumes "update_cache nm (Some c) (Some ls) (Some bs) = Inr c'"
  shows "\<exists>xs. index_pairs True ls = Inr xs \<and>
     update_lines nm True ls (c, {}) = Inr (register_all nm xs c, snd ` set xs) \<and>
     update_metadata bs (mark_todelete (snd ` set xs) (register_all nm xs c)) = Inr c'"
  using assms
  by (auto simp: update_cache_def update_lines_pairs split: sum.splits)


subsection \<open>An archive that left the index\<close>

text \<open>
  C6: when \<open>update_cache\<close> succeeds, a key of the old cache that the index scan does not
  see, and whose paragraphs in the packages file all report the cached version, keeps its
  record with \<open>todelete\<close> set to true and nothing else changed; no key of the old cache
  is removed.
\<close>

theorem vanished_archive_marked:
  assumes "update_cache nm (Some c) (Some ls) (Some bs) = Inr c'"
    and "update_lines nm True ls (c, {}) = Inr (c1, seen)"
    and "k \<notin> seen" and "map_of c k = Some r"
    and "\<forall>b\<in>set bs. stanza_key b = Some k \<longrightarrow> Version b = ver r"
  shows "map_of c' k = Some (r\<lparr>todelete := Some True\<rparr>) \<and> fst ` set c \<subseteq> fst ` set c'"
proof -
  from update_cache_unfold [OF assms(1)] assms(2)
  obtain xs where seen: "seen = snd ` set xs"
    and md: "update_metadata bs (mark_todelete seen (register_all nm xs c)) = Inr c'"
    by auto
  have "map_of (register_all nm xs c) k = Some r"
    using assms(3,4) seen by (simp add: register_all_unseen)
  then have m: "map_of (mark_todelete seen (register_all nm xs c)) k = Some (r\<lparr>todelete := Some True\<rparr>)"
    using assms(3) by (simp add: map_of_mark_todelete)
  have "\<forall>b\<in>set bs. stanza_key b = Some k \<longrightarrow> Version b = ver (r\<lparr>todelete := Some True\<rparr>)"
    using assms(5) by simp
  from update_metadata_frame [OF md m this]
  have 1: "map_of c' k = Some (r\<lparr>todelete := Some True\<rparr>)" .
  have "fst ` set c' = fst ` set (mark_todelete seen (register_all nm xs c))"
    using update_metadata_keys [OF md] by (metis set_map)
  also have "\<dots> = fst ` set (register_all nm xs c)"
    using mark_todelete_keys [of seen "register_all nm xs c"] by (metis set_map)
  finally have 2: "fst ` set c \<subseteq> fst ` set c'"
    by (simp add: register_all_keys)
  from 1 2 show ?thesis ..
qed

theorem vanished_archive_marked_witness:
  "update_cache deb_normalize_member
     (Some [(PackageName ''main'' ''foo'', ex_record ''foo'' ''1.0'' True 1),
            (PackageName ''main'' ''old'', ex_record ''old'' ''0.9'' True 1)])
     (Some ex_contents) (Some [ex_stanza ''foo'' ''1.0'', ex_stanza ''old'' ''0.9''])
   = Inr [(PackageName ''main'' ''foo'', ex_record ''foo'' ''1.0'' True 1),
          (PackageName ''main'' ''old'', (ex_record ''old'' ''0.9'' True 1)\<lparr>todelete := Some True\<rparr>)]
   \<and> map_of [(PackageName ''main'' ''foo'', ex_record ''foo'' ''1.0'' True 1),
          (PackageName ''main'' ''old'', (ex_record ''old'' ''0.9'' True 1)\<lparr>todelete := Some True\<rparr>)]
         (PackageName ''main'' ''old'')
       = Some ((ex_record ''old'' ''0.9'' True 1)\<lparr>todelete := Some True\<rparr>)"
proof -
  let ?c = "[(PackageName ''main'' ''foo'', ex_record ''foo'' ''1.0'' True 1),
            (PackageName ''main'' ''old'', ex_record ''old'' ''0.9'' True 1)]"
  let ?bs = "[ex_stanza ''foo'' ''1.0'', ex_stanza ''old'' ''0.9'']"
  let ?c' = "[(PackageName ''main'' ''foo'', ex_record ''foo'' ''1.0'' True 1),
          (PackageName ''main'' ''old'', (ex_record ''old'' ''0.9'' True 1)\<lparr>todelete := Some True\<rparr>)]"
  have h1: "update_cache deb_normalize_member (Some ?c) (Some ex_contents) (Some ?bs) = Inr ?c'"
    by (simp add: cache_defs)
  have h2: "update_lines deb_normalize_member True ex_contents (?c, {})
      = Inr (?c, {PackageName ''main'' ''foo''})"
    by (simp add: cache_defs)
  have h3: "PackageName ''main'' ''old'' \<notin> {PackageName ''main'' ''foo''}"
    by simp
  have h4: "map_of ?c (PackageName ''main'' ''old'') = Some (ex_record ''old'' ''0.9'' True 1)"
    by simp
  have h5: "\<forall>b\<in>set ?bs. stanza_key b = Some (PackageName ''main'' ''old'')
      \<longrightarrow> Version b = ver (ex_record ''old'' ''0.9'' True 1)"
    by (simp add: stanza_key_def ex_stanza_def ex_record_def)
  from vanished_archive_marked [OF h1 h2 h3 h4 h5] h1 show ?thesis
    by simp
qed


subsection \<open>A new version\<close>

text \<open>
  C3: when \<open>update_cache\<close> succeeds, a cached key with version \<open>v1\<close> whose paragraph in
  the packages file (every paragraph of that key being this one) reports a version
  \<open>v2 \<noteq> v1\<close> ends with the version, location and description of that paragraph and
  with \<open>flushed\<close> false.
\<close>

theorem version_change_refreshes:
  assumes "update_cache nm (Some c) (Some ls) (Some bs) = Inr c'"
    and "map_of c k = Some r" and "ver r = Some v1"
    and "b \<in> set bs" and "stanza_key b = Some k" and "Version b = Some v2" and "v2 \<noteq> v1"
    and "\<forall>b'\<in>set bs. stanza_key b' = Some k \<longrightarrow> b' = b"
  shows "\<exists>r'. map_of c' k = Some r' \<and> ver r' = Version b \<and> url r' = Filename b
           \<and> desc r' = Description b \<and> \<not> flushed r'
           \<and> Filename b \<noteq> None \<and> Description b \<noteq> None"
proof -
  from update_cache_unfold [OF assms(1)]
  obtain xs where md: "update_metadata bs (mark_todelete (snd ` set xs) (register_all nm xs c)) = Inr c'"
    by auto
  from register_all_frame [OF assms(2), of nm xs]
  obtain r1 where r1: "map_of (register_all nm xs c) k = Some r1" and "ver r1 = ver r"
    by blast
  then obtain r2 where r2: "map_of (mark_todelete (snd ` set xs) (register_all nm xs c)) k = Some r2"
    and v: "ver r2 = Some v1"
    using assms(3) by (auto simp: map_of_mark_todelete)
  from update_metadata_change [OF md r2 v assms(4-8)] show ?thesis
    by simp
qed
theorem version_change_refreshes_witness:
  "update_cache deb_normalize_member
     (Some [(PackageName ''main'' ''foo'', ex_record ''foo'' ''1.0'' True 1)])
     (Some ex_contents) (Some [ex_stanza ''foo'' ''1.1''])
   = Inr [(PackageName ''main'' ''foo'', ex_record ''foo'' ''1.1'' False 1)]
   \<and> (\<exists>r'. map_of [(PackageName ''main'' ''foo'', ex_record ''foo'' ''1.1'' False 1)]
              (PackageName ''main'' ''foo'') = Some r'
         \<and> ver r' = Some ''1.1'' \<and> url r' = Some ''pool/foo_1.1.deb''
         \<and> desc r' = Some ''Foo tool'' \<and> \<not> flushed r')"
proof -
  let ?c = "[(PackageName ''main'' ''foo'', ex_record ''foo'' ''1.0'' True 1)]"
  let ?b = "ex_stanza ''foo'' ''1.1''"
  let ?c' = "[(PackageName ''main'' ''foo'', ex_record ''foo'' ''1.1'' False 1)]"
  have h1: "update_cache deb_normalize_member (Some ?c) (Some ex_contents) (Some [?b]) = Inr ?c'"
    by (simp add: cache_defs)
  have h2: "map_of ?c (PackageName ''main'' ''foo'') = Some (ex_record ''foo'' ''1.0'' True 1)"
    by simp
  have h3: "ver (ex_record ''foo'' ''1.0'' True 1) = Some ''1.0''"
    by (simp add: ex_record_def)
  have h4: "?b \<in> set [?b]" by simp
  have h5: "stanza_key ?b = Some (PackageName ''main'' ''foo'')"
    by (simp add: stanza_key_def ex_stanza_def)
  have h6: "Version ?b = Some ''1.1''" by (simp add: ex_stanza_def)
  have h7: "''1.1'' \<noteq> ''1.0''" by simp
  have h8: "\<forall>b'\<in>set [?b]. stanza_key b' = Some (PackageName ''main'' ''foo'') \<longrightarrow> b' = ?b"
    by simp
  have v: "Version ?b = Some ''1.1''" "Filename ?b = Some ''pool/foo_1.1.deb''"
    "Description ?b = Some ''Foo tool''"
    by (simp_all add: ex_stanza_def)
  from version_change_refreshes [OF h1 h2 h3 h4 h5 h6 h7 h8] h1 show ?thesis
    unfolding v by blast
qed

subsection \<open>The header of the index\<close>

lemma rebuild_lines_header:
  "\<forall>l\<in>set hdr. \<not> startswith l ''FILE'' \<Longrightarrow> rebuild_lines nm True hdr c = Inr c"
  by (induction hdr) simp_all

lemma rebuild_lines_marker:
  "\<forall>l\<in>set hdr. \<not> startswith l ''FILE'' \<Longrightarrow> startswith mk ''FILE'' \<Longrightarrow>
     rebuild_lines nm True (hdr @ mk # rows) c = rebuild_lines nm False rows c"
  by (induction hdr) simp_all

lemma location_pairs_mem:
  "location_pairs file ps = Inr xs \<Longrightarrow> p \<in> set ps \<Longrightarrow> split_on CHR ''/'' p = [sec, pkg] \<Longrightarrow>
     (file, PackageName sec pkg) \<in> set xs"
proof (induction ps arbitrary: xs)
  case Nil
  then show ?case by simp
next
  case (Cons q ps)
  from Cons.prems(1) obtain s1 p1 ys where q: "split_on CHR ''/'' q = [s1, p1]"
    and ys: "location_pairs file ps = Inr ys" and xs: "xs = (file, PackageName s1 p1) # ys"
    by (auto split: list.splits sum.splits)
  show ?case
  proof (cases "p = q")
    case True
    with q Cons.prems(3) xs show ?thesis by simp
  next
    case False
    with Cons.prems(2) have "p \<in> set ps" by simp
    from Cons.IH [OF ys this Cons.prems(3)] xs show ?thesis by simp
  qed
qed

lemma index_pairs_mem:
  "index_pairs False rows = Inr xs \<Longrightarrow> line \<in> set rows \<Longrightarrow> rsplit1 line = [file, location] \<Longrightarrow>
     is_manpage file \<Longrightarrow> p \<in> set (split_on CHR '','' location) \<Longrightarrow>
     split_on CHR ''/'' p = [sec, pkg] \<Longrightarrow> (file, PackageName sec pkg) \<in> set xs"
proof (induction rows arbitrary: xs)
  case Nil
  then show ?case by simp
next
  case (Cons l rows)
  show ?case
  proof (cases "line = l")
    case True
    with Cons.prems(1,3,4) obtain ys zs where
      ys: "location_pairs file (split_on CHR '','' location) = Inr ys" and xs: "xs = ys @ zs"
      by (auto split: sum.splits)
    from location_pairs_mem [OF ys Cons.prems(5,6)] xs show ?thesis by simp
  next
    case False
    with Cons.prems(2) have mem: "line \<in> set rows" by simp
    from Cons.prems(1) obtain ys zs where zs: "index_pairs False rows = Inr zs" and xs: "xs = ys @ zs"
      by (auto split: list.splits sum.splits if_splits)
    from Cons.IH [OF zs mem Cons.prems(3-6)] xs show ?thesis by simp
  qed
qed


text \<open>
  C8, as the specification states it: the header block is optional, and a stream of
  qualifying rows without a marker line fills the cache. The loop starts with
  \<open>in_header\<close> true, so without a line that starts with \<open>FILE\<close> every row is skipped
  and the cache stays empty.
\<close>

theorem rows_without_marker_ignored:
  "is_manpage ''usr/share/man/man1/foo.1.gz''
   \<and> rsplit1 (''usr/share/man/man1/foo.1.gz    main/foo'' @ [CHR 0x0A])
       = [''usr/share/man/man1/foo.1.gz'', ''main/foo'']
   \<and> \<not> startswith (''usr/share/man/man1/foo.1.gz    main/foo'' @ [CHR 0x0A]) ''FILE''
   \<and> rebuild_lines deb_normalize_member True
        [''usr/share/man/man1/foo.1.gz    main/foo'' @ [CHR 0x0A]] [] = Inr []
   \<and> rebuild_cache deb_normalize_member
        (Some [''usr/share/man/man1/foo.1.gz    main/foo'' @ [CHR 0x0A]])
        (Some [ex_stanza ''foo'' ''1.0'']) = Inr []"
  by (simp add: cache_defs)


text \<open>
  C8, amended: the header block is required. The lines up to and including the first line
  that starts with \<open>FILE\<close> are skipped, so a stream without such a line registers
  nothing; every row after that line whose path qualifies is registered, for each of its
  locations, under the normalized path.
\<close>

theorem header_marker_required:
  assumes "\<forall>l\<in>set hdr. \<not> startswith l ''FILE''"
  shows "rebuild_lines nm True hdr c = Inr c
       \<and> (startswith mk ''FILE'' \<longrightarrow>
            rebuild_lines nm True (hdr @ mk # rows) c = rebuild_lines nm False rows c)
       \<and> (\<forall>c' line file location p sec pkg.
            rebuild_lines nm False rows c = Inr c' \<and> line \<in> set rows
            \<and> rsplit1 line = [file, location] \<and> is_manpage file
            \<and> p \<in> set (split_on CHR '','' location) \<and> split_on CHR ''/'' p = [sec, pkg]
            \<longrightarrow> registered c' (PackageName sec pkg) (nm file))"
proof (intro conjI allI impI)
  show "rebuild_lines nm True hdr c = Inr c"
    using assms by (rule rebuild_lines_header)
next
  assume "startswith mk ''FILE''"
  with assms show "rebuild_lines nm True (hdr @ mk # rows) c = rebuild_lines nm False rows c"
    by (rule rebuild_lines_marker)
next
  fix c' line path location p sec pkg
  assume h: "rebuild_lines nm False rows c = Inr c' \<and> line \<in> set rows
            \<and> rsplit1 line = [path, location] \<and> is_manpage path
            \<and> p \<in> set (split_on CHR '','' location) \<and> split_on CHR ''/'' p = [sec, pkg]"
  then obtain xs where xs: "index_pairs False rows = Inr xs" and c': "c' = register_all nm xs c"
    by (auto simp: rebuild_lines_pairs split: sum.splits)
  from h have "(path, PackageName sec pkg) \<in> set xs"
    using index_pairs_mem [OF xs] by blast
  then show "registered c' (PackageName sec pkg) (nm path)"
    unfolding c' by (rule registered_register_all)
qed

theorem header_marker_required_witness:
  "rebuild_lines deb_normalize_member True [''Debian contents'' @ [CHR 0x0A]] [] = Inr []
   \<and> rebuild_lines deb_normalize_member True ([''Debian contents'' @ [CHR 0x0A]] @ ex_contents) []
       = Inr [(PackageName ''main'' ''foo'',
               (ex_record ''foo'' ''1.0'' False 0)\<lparr>ver := None, url := None, desc := None\<rparr>)]
   \<and> registered [(PackageName ''main'' ''foo'',
               (ex_record ''foo'' ''1.0'' False 0)\<lparr>ver := None, url := None, desc := None\<rparr>)]
         (PackageName ''main'' ''foo'') ''usr/share/man/man1/foo.1.gz''"
proof -
  let ?hdr = "[''Debian contents'' @ [CHR 0x0A]]"
  let ?mk = "''FILE    LOCATION'' @ [CHR 0x0A]"
  let ?rows = "tl ex_contents"
  let ?line = "''usr/share/man/man1/foo.1.gz    main/foo'' @ [CHR 0x0A]"
  let ?c' = "[(PackageName ''main'' ''foo'',
               (ex_record ''foo'' ''1.0'' False 0)\<lparr>ver := None, url := None, desc := None\<rparr>)]"
  have h: "\<forall>l\<in>set ?hdr. \<not> startswith l ''FILE''"
    by (simp add: startswith_def)
  have m: "startswith ?mk ''FILE''"
    by (simp add: startswith_def)
  have e: "?hdr @ ?mk # ?rows = ?hdr @ ex_contents"
    by (simp add: ex_contents_def)
  have r: "rebuild_lines deb_normalize_member False ?rows [] = Inr ?c' \<and> ?line \<in> set ?rows
      \<and> rsplit1 ?line = [''usr/share/man/man1/foo.1.gz'', ''main/foo'']
      \<and> is_manpage ''usr/share/man/man1/foo.1.gz''
      \<and> ''main/foo'' \<in> set (split_on CHR '','' ''main/foo'')
      \<and> split_on CHR ''/'' ''main/foo'' = [''main'', ''foo'']"
    by (simp add: cache_defs)
  note T = header_marker_required [OF h, of deb_normalize_member "[]" ?mk ?rows]
  from T have 1: "rebuild_lines deb_normalize_member True ?hdr [] = Inr []"
    by (rule conjunct1)
  from T m have 2: "rebuild_lines deb_normalize_member True (?hdr @ ex_contents) []
      = rebuild_lines deb_normalize_member False ?rows []"
    unfolding e by blast
  from T [THEN conjunct2, THEN conjunct2, rule_format, OF r]
  have 3: "registered ?c' (PackageName ''main'' ''foo'')
      (deb_normalize_member ''usr/share/man/man1/foo.1.gz'')" .
  have n: "deb_normalize_member ''usr/share/man/man1/foo.1.gz'' = ''usr/share/man/man1/foo.1.gz''"
    by (simp add: deb_normalize_member_def startswith_def)
  from 1 2 3 r show ?thesis
    unfolding n by simp
qed

subsection \<open>Updating a cache that is already current\<close>













end
